theory Spec2Isabelle
  imports Main "HOL-Library.Word" "HOL-Library.Monad_Syntax"
begin

section \<open>The IR node hierarchy of \<^verbatim>\<open>vm/ir/ir.h\<close>\<close>

text \<open>
  \<^verbatim>\<open>typedef uint64_t VarId\<close>. Pointers to heap objects are addresses; every class of
  object that is reached through a pointer of its own static type has an address space of
  its own.
\<close>

type_synonym VarId = "64 word"
type_synonym block_ptr = nat
type_synonym jump_ptr = nat
type_synonym stmt_ptr = nat
type_synonym function_ptr = nat

text \<open>\<^verbatim>\<open>enum IrType\<close>: one tag per entry of \<^verbatim>\<open>FOR_IR\<close>, in its order, then \<^verbatim>\<open>IT_INVALID\<close>.\<close>

datatype IrType =
    IT_BinOp | IT_UnOp | IT_Variable | IT_Return | IT_Phi | IT_Int | IT_Double | IT_Ptr
  | IT_Block | IT_Assignment | IT_Call | IT_Print | IT_Function | IT_JumpAlways
  | IT_JumpCond | IT_WriteRef | IT_ReadRef | IT_INVALID

datatype VarType = VT_Undefined | VT_Unit | VT_Int | VT_Double | VT_Ptr | VT_Error

text \<open>
  The atoms (\<^verbatim>\<open>struct Atom : Expression\<close>): \<^verbatim>\<open>Variable\<close>, \<^verbatim>\<open>Int\<close>, \<^verbatim>\<open>Double\<close>, \<^verbatim>\<open>Ptr\<close> and
  \<^verbatim>\<open>ReadRef\<close>. The constructor for \<^verbatim>\<open>Int\<close> is written \<open>Int'\<close>, since \<open>Int\<close> is HOL's
  set intersection. An \<^verbatim>\<open>int64_t\<close> is its 64 bits; a \<^verbatim>\<open>double\<close> is kept as its 64-bit pattern
  (no operation of this file computes with it).
\<close>

datatype Atom =
    Variable VarId
  | Int' "64 word"
  | Double "64 word"
  | Ptr "64 word" bool
  | ReadRef VarId

datatype BinOp_Type =
    BO_ADD | BO_FADD | BO_SUB | BO_FSUB | BO_MUL | BO_FMUL | BO_DIV | BO_FDIV | BO_MOD
  | BO_LT | BO_FLT | BO_LE | BO_FLE | BO_EQ | BO_NEQ | BO_OR | BO_AND | BO_LOR | BO_LAND
  | BO_XOR | BO_INVALID

datatype UnOp_Type = UO_CAST_I2D | UO_CAST_D2I | UO_NEG | UO_FNEG | UO_NOT | UO_INVALID

text \<open>
  Expressions own their operands (the destructors delete them), so an expression is the
  tree of its operands. \<^verbatim>\<open>Call\<close> carries \<^verbatim>\<open>funId\<close>, \<^verbatim>\<open>params\<close> and \<^verbatim>\<open>refParams\<close>; \<^verbatim>\<open>BinOp\<close>
  carries \<^verbatim>\<open>left\<close>, \<^verbatim>\<open>right\<close> and \<^verbatim>\<open>type\<close>; \<^verbatim>\<open>UnOp\<close> carries \<^verbatim>\<open>operand\<close> and \<^verbatim>\<open>type\<close>.
\<close>

datatype Expression =
    Atomic Atom
  | Call "16 word" "Atom list" "VarId list"
  | BinOp Atom Atom BinOp_Type
  | UnOp Atom UnOp_Type

text \<open>
  The statements that are not jumps. \<^verbatim>\<open>Assignment\<close> and \<^verbatim>\<open>Phi\<close> own a \<^verbatim>\<open>Variable\<close>,
  given here by its id; the \<^verbatim>\<open>vars\<close> of a \<^verbatim>\<open>Phi\<close> are the ids of the variables it owns.
\<close>

datatype Statement =
    Assignment VarId Expression
  | Return Atom
  | Phi VarId "VarId list"
  | Print Atom
  | WriteRef Atom VarId

text \<open>
  \<^verbatim>\<open>JumpAlways\<close> holds \<^verbatim>\<open>destination\<close>; \<^verbatim>\<open>JumpCond\<close> holds \<^verbatim>\<open>yes\<close>, \<^verbatim>\<open>no\<close> and the condition
  atom it owns. The destinations are pointers to blocks, which a jump does not own.
\<close>

datatype Jump =
    JumpAlways block_ptr
  | JumpCond block_ptr block_ptr Atom

text \<open>
  \<^verbatim>\<open>struct Block\<close>: the private \<^verbatim>\<open>_transition\<close> (\<open>None\<close> is the null pointer), \<^verbatim>\<open>name\<close>,
  the set \<^verbatim>\<open>predecessors\<close> of block pointers and the deque \<^verbatim>\<open>contents\<close> of statement
  pointers.
\<close>

record Block =
  transition :: "jump_ptr option"
  name :: string
  predecessors :: "block_ptr set"
  contents :: "stmt_ptr list"

text \<open>\<^verbatim>\<open>class Function\<close>; \<^verbatim>\<open>nativeAddress\<close> is \<open>None\<close> for the null pointer.\<close>

record Function =
  function_name :: string
  function_id :: "16 word"
  entry :: block_ptr
  parametersIds :: "VarId list"
  refParameterIds :: "VarId list"
  memoryCells :: "VarId list"
  returnType :: VarType
  nativeAddress :: "nat option"

text \<open>
  A node as a pointer to \<^verbatim>\<open>IrElement\<close> sees it: an object of one of the seventeen concrete
  classes (the classes \<^verbatim>\<open>IrElement\<close>, \<^verbatim>\<open>Expression\<close>, \<^verbatim>\<open>Atom\<close>, \<^verbatim>\<open>Statement\<close> and \<^verbatim>\<open>Jump\<close>
  are abstract: none of them overrides the pure virtual \<^verbatim>\<open>getType\<close>).
\<close>

datatype IrElement =
    Elem_Expression Expression
  | Elem_Statement Statement
  | Elem_Jump Jump
  | Elem_Block Block
  | Elem_Function Function

subsection \<open>The discriminant and the narrowing queries\<close>

text \<open>
  \<^verbatim>\<open>IR_COMMON_FUNCTIONS(ir)\<close> in the body of class \<^verbatim>\<open>ir\<close> overrides \<^verbatim>\<open>getType\<close> to return
  \<^verbatim>\<open>IT_##ir\<close>.
\<close>

fun getType :: "IrElement \<Rightarrow> IrType" where
  "getType (Elem_Expression (BinOp _ _ _)) = IT_BinOp"
| "getType (Elem_Expression (UnOp _ _)) = IT_UnOp"
| "getType (Elem_Expression (Atomic (Variable _))) = IT_Variable"
| "getType (Elem_Statement (Return _)) = IT_Return"
| "getType (Elem_Statement (Phi _ _)) = IT_Phi"
| "getType (Elem_Expression (Atomic (Int' _))) = IT_Int"
| "getType (Elem_Expression (Atomic (Double _))) = IT_Double"
| "getType (Elem_Expression (Atomic (Ptr _ _))) = IT_Ptr"
| "getType (Elem_Block _) = IT_Block"
| "getType (Elem_Statement (Assignment _ _)) = IT_Assignment"
| "getType (Elem_Expression (Call _ _ _)) = IT_Call"
| "getType (Elem_Statement (Print _)) = IT_Print"
| "getType (Elem_Function _) = IT_Function"
| "getType (Elem_Jump (JumpAlways _)) = IT_JumpAlways"
| "getType (Elem_Jump (JumpCond _ _ _)) = IT_JumpCond"
| "getType (Elem_Statement (WriteRef _ _)) = IT_WriteRef"
| "getType (Elem_Expression (Atomic (ReadRef _))) = IT_ReadRef"

text \<open>
  \<^verbatim>\<open>is##ir\<close>: \<^verbatim>\<open>HELPER(ir)\<close> gives \<^verbatim>\<open>IrElement\<close> the default that returns false, and
  \<^verbatim>\<open>IR_COMMON_FUNCTIONS(ir)\<close> overrides it in class \<^verbatim>\<open>ir\<close> alone to return true.
\<close>

fun isBinOp :: "IrElement \<Rightarrow> bool" where
  "isBinOp (Elem_Expression (BinOp _ _ _)) = True"
| "isBinOp _ = False"

fun isUnOp :: "IrElement \<Rightarrow> bool" where
  "isUnOp (Elem_Expression (UnOp _ _)) = True"
| "isUnOp _ = False"

fun isVariable :: "IrElement \<Rightarrow> bool" where
  "isVariable (Elem_Expression (Atomic (Variable _))) = True"
| "isVariable _ = False"

fun isReturn :: "IrElement \<Rightarrow> bool" where
  "isReturn (Elem_Statement (Return _)) = True"
| "isReturn _ = False"

fun isPhi :: "IrElement \<Rightarrow> bool" where
  "isPhi (Elem_Statement (Phi _ _)) = True"
| "isPhi _ = False"

fun isInt :: "IrElement \<Rightarrow> bool" where
  "isInt (Elem_Expression (Atomic (Int' _))) = True"
| "isInt _ = False"

fun isDouble :: "IrElement \<Rightarrow> bool" where
  "isDouble (Elem_Expression (Atomic (Double _))) = True"
| "isDouble _ = False"

fun isPtr :: "IrElement \<Rightarrow> bool" where
  "isPtr (Elem_Expression (Atomic (Ptr _ _))) = True"
| "isPtr _ = False"

fun isBlock :: "IrElement \<Rightarrow> bool" where
  "isBlock (Elem_Block _) = True"
| "isBlock _ = False"

fun isAssignment :: "IrElement \<Rightarrow> bool" where
  "isAssignment (Elem_Statement (Assignment _ _)) = True"
| "isAssignment _ = False"

fun isCall :: "IrElement \<Rightarrow> bool" where
  "isCall (Elem_Expression (Call _ _ _)) = True"
| "isCall _ = False"

fun isPrint :: "IrElement \<Rightarrow> bool" where
  "isPrint (Elem_Statement (Print _)) = True"
| "isPrint _ = False"

fun isFunction :: "IrElement \<Rightarrow> bool" where
  "isFunction (Elem_Function _) = True"
| "isFunction _ = False"

fun isJumpAlways :: "IrElement \<Rightarrow> bool" where
  "isJumpAlways (Elem_Jump (JumpAlways _)) = True"
| "isJumpAlways _ = False"

fun isJumpCond :: "IrElement \<Rightarrow> bool" where
  "isJumpCond (Elem_Jump (JumpCond _ _ _)) = True"
| "isJumpCond _ = False"

fun isWriteRef :: "IrElement \<Rightarrow> bool" where
  "isWriteRef (Elem_Statement (WriteRef _ _)) = True"
| "isWriteRef _ = False"

fun isReadRef :: "IrElement \<Rightarrow> bool" where
  "isReadRef (Elem_Expression (Atomic (ReadRef _))) = True"
| "isReadRef _ = False"

text \<open>
  \<^verbatim>\<open>as##ir\<close>: the default of \<^verbatim>\<open>IrElement\<close> returns \<^verbatim>\<open>NULL\<close> (\<open>None\<close>); the override in class
  \<^verbatim>\<open>ir\<close> returns \<^verbatim>\<open>this\<close>, the node it was called on.
\<close>

fun asBinOp :: "IrElement \<Rightarrow> IrElement option" where
  "asBinOp (Elem_Expression (BinOp l r t)) = Some (Elem_Expression (BinOp l r t))"
| "asBinOp _ = None"

fun asUnOp :: "IrElement \<Rightarrow> IrElement option" where
  "asUnOp (Elem_Expression (UnOp a t)) = Some (Elem_Expression (UnOp a t))"
| "asUnOp _ = None"

fun asVariable :: "IrElement \<Rightarrow> IrElement option" where
  "asVariable (Elem_Expression (Atomic (Variable v))) = Some (Elem_Expression (Atomic (Variable v)))"
| "asVariable _ = None"

fun asReturn :: "IrElement \<Rightarrow> IrElement option" where
  "asReturn (Elem_Statement (Return a)) = Some (Elem_Statement (Return a))"
| "asReturn _ = None"

fun asPhi :: "IrElement \<Rightarrow> IrElement option" where
  "asPhi (Elem_Statement (Phi v vs)) = Some (Elem_Statement (Phi v vs))"
| "asPhi _ = None"

fun asInt :: "IrElement \<Rightarrow> IrElement option" where
  "asInt (Elem_Expression (Atomic (Int' i))) = Some (Elem_Expression (Atomic (Int' i)))"
| "asInt _ = None"

fun asDouble :: "IrElement \<Rightarrow> IrElement option" where
  "asDouble (Elem_Expression (Atomic (Double d))) = Some (Elem_Expression (Atomic (Double d)))"
| "asDouble _ = None"

fun asPtr :: "IrElement \<Rightarrow> IrElement option" where
  "asPtr (Elem_Expression (Atomic (Ptr p s))) = Some (Elem_Expression (Atomic (Ptr p s)))"
| "asPtr _ = None"

fun asBlock :: "IrElement \<Rightarrow> IrElement option" where
  "asBlock (Elem_Block b) = Some (Elem_Block b)"
| "asBlock _ = None"

fun asAssignment :: "IrElement \<Rightarrow> IrElement option" where
  "asAssignment (Elem_Statement (Assignment v e)) = Some (Elem_Statement (Assignment v e))"
| "asAssignment _ = None"

fun asCall :: "IrElement \<Rightarrow> IrElement option" where
  "asCall (Elem_Expression (Call f ps rs)) = Some (Elem_Expression (Call f ps rs))"
| "asCall _ = None"

fun asPrint :: "IrElement \<Rightarrow> IrElement option" where
  "asPrint (Elem_Statement (Print a)) = Some (Elem_Statement (Print a))"
| "asPrint _ = None"

fun asFunction :: "IrElement \<Rightarrow> IrElement option" where
  "asFunction (Elem_Function f) = Some (Elem_Function f)"
| "asFunction _ = None"

fun asJumpAlways :: "IrElement \<Rightarrow> IrElement option" where
  "asJumpAlways (Elem_Jump (JumpAlways d)) = Some (Elem_Jump (JumpAlways d))"
| "asJumpAlways _ = None"

fun asJumpCond :: "IrElement \<Rightarrow> IrElement option" where
  "asJumpCond (Elem_Jump (JumpCond y n c)) = Some (Elem_Jump (JumpCond y n c))"
| "asJumpCond _ = None"

fun asWriteRef :: "IrElement \<Rightarrow> IrElement option" where
  "asWriteRef (Elem_Statement (WriteRef a r)) = Some (Elem_Statement (WriteRef a r))"
| "asWriteRef _ = None"

fun asReadRef :: "IrElement \<Rightarrow> IrElement option" where
  "asReadRef (Elem_Expression (Atomic (ReadRef r))) = Some (Elem_Expression (Atomic (ReadRef r)))"
| "asReadRef _ = None"

subsection \<open>\<^verbatim>\<open>Function::argument\<close>\<close>

text \<open>
  The decimal digits of a \<^verbatim>\<open>size_t\<close>, as \<^verbatim>\<open>operator<<\<close> of a \<^verbatim>\<open>std::stringstream\<close>
  writes them.
\<close>

definition digit :: "nat \<Rightarrow> char" where
  "digit d = ''0123456789'' ! d"

function decimal :: "nat \<Rightarrow> string" where
  "decimal n = (if n < 10 then [digit n] else decimal (n div 10) @ [digit (n mod 10)])"
  by pat_completeness auto
termination
  by (relation "measure (\<lambda>n. n)") auto

declare decimal.simps [simp del]

text \<open>
  \<^verbatim>\<open>throw new std::out_of_range(msg.str())\<close>: the error carries the message.
\<close>

datatype error = out_of_range string

definition arguments :: "Function \<Rightarrow> nat" where
  "arguments f = length (parametersIds f) + length (refParameterIds f)"

text \<open>
  The index is a \<^verbatim>\<open>size_t\<close>; line 490 subtracts \<^verbatim>\<open>parametersIds.size()\<close> from it only
  after line 489 found it not below that size, so the subtraction never wraps. The
  message is built from the index as it stands after that subtraction.
\<close>

definition argument :: "Function \<Rightarrow> nat \<Rightarrow> error + VarId" where
  "argument f idx =
     (if idx < length (parametersIds f) then Inr (parametersIds f ! idx)
      else
        let idx = idx - length (parametersIds f) in
        if idx < length (refParameterIds f) then Inr (refParameterIds f ! idx)
        else Inl (out_of_range
               (''Argument index is out of range: total args: '' @ decimal (arguments f)
                  @ '' index '' @ decimal idx)))"

section \<open>The heap of blocks, jumps and statements\<close>

text \<open>
  Blocks are shared between the jumps that name them, and the linkage operations update
  them in place, so they live in a store, as the jumps and the statements the blocks point
  to do. A store is the list of its cells, in the order of allocation: \<open>new\<close> appends a
  cell and returns its address; \<open>delete\<close> empties a cell, whose address is never handed
  out again. An address with no object (beyond the list, or deleted) is an invalid
  pointer. Using one is undefined behaviour in the source; here the operation has no
  result (\<open>None\<close>).
\<close>

type_synonym 'a store = "'a option list"

definition load :: "'a store \<Rightarrow> nat \<Rightarrow> 'a option" where
  "load s p = (if p < length s then s ! p else None)"

definition store :: "'a store \<Rightarrow> nat \<Rightarrow> 'a \<Rightarrow> 'a store" where
  "store s p v = s[p := Some v]"

definition new :: "'a store \<Rightarrow> 'a \<Rightarrow> nat \<times> 'a store" where
  "new s v = (length s, s @ [Some v])"

definition delete :: "'a store \<Rightarrow> nat \<Rightarrow> 'a store option" where
  "delete s p = (case load s p of None \<Rightarrow> None | Some _ \<Rightarrow> Some (s[p := None]))"

record heap =
  block_heap :: "Block store"
  jump_heap :: "Jump store"
  stmt_heap :: "Statement store"
  function_heap :: "Function store"

subsection \<open>\<^verbatim>\<open>struct Block\<close>: the linkage operations\<close>

text \<open>
  Each member function takes \<^verbatim>\<open>this\<close> first and the heap last, and returns the heap
  after the call (with the returned value, if it returns one).
\<close>

definition getTransition :: "block_ptr \<Rightarrow> heap \<Rightarrow> jump_ptr option option" where
  "getTransition this h = do { b \<leftarrow> load (block_heap h) this; Some (transition b) }"

definition addPredecessor :: "block_ptr \<Rightarrow> block_ptr \<Rightarrow> heap \<Rightarrow> heap option" where
  "addPredecessor this block h = do {
     b \<leftarrow> load (block_heap h) this;
     Some (h\<lparr>block_heap := store (block_heap h) this
                (b\<lparr>predecessors := insert block (predecessors b)\<rparr>)\<rparr>)
   }"

definition removePredecessor :: "block_ptr \<Rightarrow> block_ptr \<Rightarrow> heap \<Rightarrow> heap option" where
  "removePredecessor this block h = do {
     b \<leftarrow> load (block_heap h) this;
     Some (h\<lparr>block_heap := store (block_heap h) this
                (b\<lparr>predecessors := predecessors b - {block}\<rparr>)\<rparr>)
   }"

text \<open>
  \<^verbatim>\<open>setTransition\<close> stores the pointer, returns at once when it is null, and otherwise
  registers \<^verbatim>\<open>this\<close> with the destination of a \<^verbatim>\<open>JumpAlways\<close>, or with \<^verbatim>\<open>yes\<close> and then
  \<^verbatim>\<open>no\<close> of a \<^verbatim>\<open>JumpCond\<close>. It neither deletes the transition it replaces nor removes a
  predecessor.
\<close>

definition setTransition :: "block_ptr \<Rightarrow> jump_ptr option \<Rightarrow> heap \<Rightarrow> heap option" where
  "setTransition this jmp h = do {
     b \<leftarrow> load (block_heap h) this;
     let h = h\<lparr>block_heap := store (block_heap h) this (b\<lparr>transition := jmp\<rparr>)\<rparr>;
     case jmp of
       None \<Rightarrow> Some h
     | Some j \<Rightarrow> do {
         jump \<leftarrow> load (jump_heap h) j;
         case jump of
           JumpAlways destination \<Rightarrow> addPredecessor destination this h
         | JumpCond yes no _ \<Rightarrow> do {
             h \<leftarrow> addPredecessor yes this h;
             addPredecessor no this h
           }
       }
   }"

text \<open>
  \<^verbatim>\<open>delete\<close> of a jump. The destructor of a \<^verbatim>\<open>JumpCond\<close> deletes the condition it owns,
  which is part of the cell here; no jump destructor touches a block.
\<close>

definition delete_Jump :: "jump_ptr \<Rightarrow> heap \<Rightarrow> heap option" where
  "delete_Jump j h = do { js \<leftarrow> delete (jump_heap h) j; Some (h\<lparr>jump_heap := js\<rparr>) }"

text \<open>
  \<^verbatim>\<open>void link(JumpCond *cond)\<close>: delete the present transition if there is one, store
  \<^verbatim>\<open>cond\<close>, then read \<^verbatim>\<open>cond->yes\<close> and \<^verbatim>\<open>cond->no\<close> and register \<^verbatim>\<open>this\<close> with each. The
  pointer has the static type \<^verbatim>\<open>JumpCond *\<close>, so a cell holding a \<^verbatim>\<open>JumpAlways\<close> is no
  object for it.
\<close>

definition link_JumpCond :: "block_ptr \<Rightarrow> jump_ptr \<Rightarrow> heap \<Rightarrow> heap option" where
  "link_JumpCond this cond h = do {
     b \<leftarrow> load (block_heap h) this;
     h \<leftarrow> (case transition b of None \<Rightarrow> Some h | Some t \<Rightarrow> delete_Jump t h);
     let h = h\<lparr>block_heap := store (block_heap h) this (b\<lparr>transition := Some cond\<rparr>)\<rparr>;
     c \<leftarrow> load (jump_heap h) cond;
     case c of
       JumpCond yes no _ \<Rightarrow> do {
         h \<leftarrow> addPredecessor yes this h;
         addPredecessor no this h
       }
     | JumpAlways _ \<Rightarrow> None
   }"

text \<open>
  \<^verbatim>\<open>void link(Block *next)\<close>: delete the present transition if there is one, allocate a
  \<^verbatim>\<open>JumpAlways(next)\<close>, store it, and register \<^verbatim>\<open>this\<close> with \<^verbatim>\<open>next\<close>.
\<close>

definition link_Block :: "block_ptr \<Rightarrow> block_ptr \<Rightarrow> heap \<Rightarrow> heap option" where
  "link_Block this next h = do {
     b \<leftarrow> load (block_heap h) this;
     h \<leftarrow> (case transition b of None \<Rightarrow> Some h | Some t \<Rightarrow> delete_Jump t h);
     let (j, js) = new (jump_heap h) (JumpAlways next);
     let h = h\<lparr>jump_heap := js,
                block_heap := store (block_heap h) this (b\<lparr>transition := Some j\<rparr>)\<rparr>;
     addPredecessor next this h
   }"

definition isLastBlock :: "block_ptr \<Rightarrow> heap \<Rightarrow> bool option" where
  "isLastBlock this h = do { t \<leftarrow> getTransition this h; Some (t = None) }"

text \<open>
  \<^verbatim>\<open>isEmpty\<close> is a conjunction with \<^verbatim>\<open>&&\<close>: the right operand is evaluated only when the
  left one is true. Its last operand calls \<^verbatim>\<open>isJumpAlways\<close> through the transition
  pointer, which is undefined behaviour on a null or invalid one.
\<close>

definition isEmpty :: "block_ptr \<Rightarrow> heap \<Rightarrow> bool option" where
  "isEmpty this h = do {
     b \<leftarrow> load (block_heap h) this;
     if length (contents b) = 0 then do {
       last \<leftarrow> isLastBlock this h;
       if \<not> last then do {
         t \<leftarrow> getTransition this h;
         j \<leftarrow> t;
         jump \<leftarrow> load (jump_heap h) j;
         Some (isJumpAlways (Elem_Jump jump))
       } else Some False
     } else Some False
   }"

text \<open>\<^verbatim>\<open>isEntry\<close>: the set of predecessors has size 0.\<close>

definition isEntry :: "block_ptr \<Rightarrow> heap \<Rightarrow> bool option" where
  "isEntry this h = do { b \<leftarrow> load (block_heap h) this; Some (predecessors b = {}) }"

text \<open>The constructor \<^verbatim>\<open>Block(name)\<close>: no transition, no predecessor, no statement.\<close>

definition Block_init :: "string \<Rightarrow> Block" where
  "Block_init nm = \<lparr>transition = None, name = nm, predecessors = {}, contents = []\<rparr>"

subsection \<open>The edges of the graph\<close>

text \<open>The blocks a jump names: \<^verbatim>\<open>destination\<close>, or \<^verbatim>\<open>yes\<close> and \<^verbatim>\<open>no\<close>.\<close>

fun destinations :: "Jump \<Rightarrow> block_ptr list" where
  "destinations (JumpAlways destination) = [destination]"
| "destinations (JumpCond yes no _) = [yes, no]"

text \<open>Block \<open>P\<close> has a jump, and the jump names \<open>B\<close> as a destination.\<close>

definition names_destination :: "heap \<Rightarrow> block_ptr \<Rightarrow> block_ptr \<Rightarrow> bool" where
  "names_destination h P B =
     (case load (block_heap h) P of
        None \<Rightarrow> False
      | Some p \<Rightarrow>
          (case transition p of
             None \<Rightarrow> False
           | Some j \<Rightarrow>
               (case load (jump_heap h) j of
                  None \<Rightarrow> False
                | Some jump \<Rightarrow> B \<in> set (destinations jump))))"

text \<open>The addresses of the objects of a store.\<close>

definition objects :: "'a store \<Rightarrow> nat set" where
  "objects s = {p \<in> {0..<length s}. s ! p \<noteq> None}"

definition predecessors_of :: "heap \<Rightarrow> block_ptr \<Rightarrow> block_ptr set" where
  "predecessors_of h B = (case load (block_heap h) B of None \<Rightarrow> {} | Some b \<Rightarrow> predecessors b)"

text \<open>
  Predecessor consistency: for all blocks \<open>P\<close> and \<open>B\<close> of the heap, \<open>P\<close> is in the
  predecessors of \<open>B\<close> exactly when the jump of \<open>P\<close> names \<open>B\<close>.
\<close>

definition predecessor_consistent :: "heap \<Rightarrow> bool" where
  "predecessor_consistent h =
     (\<forall>P \<in> objects (block_heap h). \<forall>B \<in> objects (block_heap h).
        (P \<in> predecessors_of h B) = names_destination h P B)"

text \<open>Every block of the heap has no transition or one that points to a jump.\<close>

definition transitions_valid :: "heap \<Rightarrow> bool" where
  "transitions_valid h =
     (\<forall>Q \<in> objects (block_heap h).
        case getTransition Q h of
          Some (Some t) \<Rightarrow> load (jump_heap h) t \<noteq> None
        | _ \<Rightarrow> True)"

subsection \<open>\<^verbatim>\<open>Block::relink\<close>\<close>

text \<open>
  Modelled from the spec: \<^verbatim>\<open>bool relink(Block *oldChild, Block *newChild)\<close> is declared in
  \<^verbatim>\<open>struct Block\<close> (line 452) and defined outside \<^verbatim>\<open>ir.h\<close>. The spec has it rewrite the
  jump of the block so that every edge that pointed at \<^verbatim>\<open>oldChild\<close> points at \<^verbatim>\<open>newChild\<close>,
  remove the block from the predecessors of \<^verbatim>\<open>oldChild\<close> and add it to those of
  \<^verbatim>\<open>newChild\<close>, and fail, with the graph as it was, when \<^verbatim>\<open>oldChild\<close> is no destination of
  the jump.
\<close>

text \<open>
  Modelled from the spec: the jump rewritten by \<^verbatim>\<open>relink\<close>, every destination that is
  \<^verbatim>\<open>oldChild\<close> replaced by \<^verbatim>\<open>newChild\<close>.
\<close>

fun redirect :: "block_ptr \<Rightarrow> block_ptr \<Rightarrow> Jump \<Rightarrow> Jump" where
  "redirect oldChild newChild (JumpAlways destination) =
     JumpAlways (if destination = oldChild then newChild else destination)"
| "redirect oldChild newChild (JumpCond yes no condition) =
     JumpCond (if yes = oldChild then newChild else yes)
              (if no = oldChild then newChild else no) condition"

text \<open>
  Modelled from the spec: \<^verbatim>\<open>Block::relink\<close> itself. The result is the returned flag and
  the heap; a call that fails returns the heap it was given.
\<close>

definition relink :: "block_ptr \<Rightarrow> block_ptr \<Rightarrow> block_ptr \<Rightarrow> heap \<Rightarrow> (bool \<times> heap) option" where
  "relink this oldChild newChild h = do {
     b \<leftarrow> load (block_heap h) this;
     case transition b of
       None \<Rightarrow> Some (False, h)
     | Some j \<Rightarrow> do {
         jump \<leftarrow> load (jump_heap h) j;
         if oldChild \<in> set (destinations jump) then do {
           let h = h\<lparr>jump_heap := store (jump_heap h) j (redirect oldChild newChild jump)\<rparr>;
           h \<leftarrow> removePredecessor oldChild this h;
           h \<leftarrow> addPredecessor newChild this h;
           Some (True, h)
         } else Some (False, h)
       }
   }"

section \<open>Teardown\<close>

subsection \<open>Destructors of statements and blocks\<close>

text \<open>
  \<^verbatim>\<open>delete\<close> of a statement. The destructors of the statements delete the atoms and
  expressions they own, which are part of the cell here.
\<close>

definition delete_Statement :: "stmt_ptr \<Rightarrow> heap \<Rightarrow> heap option" where
  "delete_Statement s h = do { ss \<leftarrow> delete (stmt_heap h) s; Some (h\<lparr>stmt_heap := ss\<rparr>) }"

text \<open>The loop \<^verbatim>\<open>for (auto s : contents) delete s;\<close>.\<close>

fun delete_Statements :: "stmt_ptr list \<Rightarrow> heap \<Rightarrow> heap option" where
  "delete_Statements [] h = Some h"
| "delete_Statements (s # ss) h = do { h \<leftarrow> delete_Statement s h; delete_Statements ss h }"

text \<open>
  \<^verbatim>\<open>~Block\<close> deletes the statements of \<^verbatim>\<open>contents\<close> in order and then \<^verbatim>\<open>_transition\<close>
  (\<^verbatim>\<open>delete\<close> of a null pointer does nothing). It deletes no other block.
\<close>

definition Block_destructor :: "block_ptr \<Rightarrow> heap \<Rightarrow> heap option" where
  "Block_destructor this h = do {
     b \<leftarrow> load (block_heap h) this;
     h \<leftarrow> delete_Statements (contents b) h;
     case transition b of None \<Rightarrow> Some h | Some t \<Rightarrow> delete_Jump t h
   }"

text \<open>\<^verbatim>\<open>delete\<close> of a block: its destructor, then its cell.\<close>

definition delete_Block :: "block_ptr \<Rightarrow> heap \<Rightarrow> heap option" where
  "delete_Block b h = do {
     h \<leftarrow> Block_destructor b h;
     bs \<leftarrow> delete (block_heap h) b;
     Some (h\<lparr>block_heap := bs\<rparr>)
   }"

subsection \<open>\<^verbatim>\<open>Function::~Function\<close>\<close>

text \<open>
  \<^verbatim>\<open>virtual ~Function();\<close> is declared in \<^verbatim>\<open>class Function\<close> (line 498) and defined
  outside \<^verbatim>\<open>ir.h\<close>. The spec has the teardown of a function release every block reachable
  from its entry exactly once, with the statements and the jump each of them owns. The
  model walks the graph from \<^verbatim>\<open>entry\<close> before it deletes anything, and then deletes the
  blocks the walk returns, one after the other.
\<close>

text \<open>
  Modelled from the spec: the blocks the jump of a block names, for the walk of
  \<^verbatim>\<open>Function::~Function\<close>. A block without a jump has none; an invalid block or jump
  pointer gives no result.
\<close>

definition successors :: "heap \<Rightarrow> block_ptr \<Rightarrow> block_ptr list option" where
  "successors h p = do {
     b \<leftarrow> load (block_heap h) p;
     case transition b of
       None \<Rightarrow> Some []
     | Some j \<Rightarrow> do { jump \<leftarrow> load (jump_heap h) j; Some (destinations jump) }
   }"

text \<open>
  Modelled from the spec: the walk of \<^verbatim>\<open>Function::~Function\<close> over the blocks reachable
  from the entry. It takes the stack of blocks still to visit and the blocks seen so far,
  skips a block it has seen, and pushes the successors of a new one. It terminates: every
  new block is an object of the heap that was not seen before.
\<close>

function walk :: "heap \<Rightarrow> block_ptr list \<Rightarrow> block_ptr list \<Rightarrow> block_ptr list option" where
  "walk h [] seen = Some seen"
| "walk h (p # todo) seen =
     (if p \<in> set seen then walk h todo seen
      else case successors h p of
             None \<Rightarrow> None
           | Some ss \<Rightarrow> walk h (ss @ todo) (p # seen))"
  by pat_completeness auto
termination
proof (relation "measures [\<lambda>(h, todo, seen). card (objects (block_heap h) - set seen),
                           \<lambda>(h, todo, seen). length todo]")
  show "wf (measures [\<lambda>(h, todo, seen). card (objects (block_heap h) - set seen),
                      \<lambda>(h, todo, seen). length todo])"
    by simp
next
  fix h :: heap and p :: block_ptr and todo seen :: "block_ptr list"
  assume "p \<in> set seen"
  then show "((h, todo, seen), (h, p # todo, seen))
      \<in> measures [\<lambda>(h, todo, seen). card (objects (block_heap h) - set seen),
                   \<lambda>(h, todo, seen). length todo]"
    by simp
next
  fix h :: heap and p :: block_ptr and todo seen ss :: "block_ptr list"
  assume new: "p \<notin> set seen" and ss: "successors h p = Some ss"
  have "load (block_heap h) p \<noteq> None"
    using ss by (auto simp: successors_def split: bind_splits)
  then have p: "p \<in> objects (block_heap h)"
    by (auto simp: objects_def load_def split: if_splits)
  have fin: "finite (objects (block_heap h) - set seen)"
    by (simp add: objects_def)
  have "objects (block_heap h) - set (p # seen) \<subset> objects (block_heap h) - set seen"
    using p new by auto
  then have "card (objects (block_heap h) - set (p # seen)) < card (objects (block_heap h) - set seen)"
    using fin by (rule psubset_card_mono [rotated])
  then show "((h, ss @ todo, p # seen), (h, p # todo, seen))
      \<in> measures [\<lambda>(h, todo, seen). card (objects (block_heap h) - set seen),
                   \<lambda>(h, todo, seen). length todo]"
    by simp
qed

text \<open>
  Modelled from the spec: the release of the blocks the walk found, each with \<^verbatim>\<open>delete\<close>
  (which runs \<^verbatim>\<open>~Block\<close>).
\<close>

fun delete_Blocks :: "block_ptr list \<Rightarrow> heap \<Rightarrow> heap option" where
  "delete_Blocks [] h = Some h"
| "delete_Blocks (b # bs) h = do { h \<leftarrow> delete_Block b h; delete_Blocks bs h }"

text \<open>
  Modelled from the spec: \<^verbatim>\<open>Function::~Function\<close> itself, the walk from \<^verbatim>\<open>entry\<close> and
  then the release of what it found.
\<close>

definition Function_destructor :: "function_ptr \<Rightarrow> heap \<Rightarrow> heap option" where
  "Function_destructor this h = do {
     f \<leftarrow> load (function_heap h) this;
     bs \<leftarrow> walk h [entry f] [];
     delete_Blocks bs h
   }"

text \<open>\<^verbatim>\<open>delete\<close> of a function: its destructor, then its cell.\<close>

definition delete_Function :: "function_ptr \<Rightarrow> heap \<Rightarrow> heap option" where
  "delete_Function f h = do {
     h \<leftarrow> Function_destructor f h;
     fs \<leftarrow> delete (function_heap h) f;
     Some (h\<lparr>function_heap := fs\<rparr>)
   }"

subsection \<open>\<^verbatim>\<open>struct SimpleIr\<close>\<close>

text \<open>
  \<^verbatim>\<open>VarMeta\<close> (\<^verbatim>\<open>id\<close> and \<^verbatim>\<open>type\<close> are written \<open>var_id\<close> and \<open>var_type\<close>) and the
  container: the string pool, the vector \<^verbatim>\<open>functions\<close> of function pointers (written
  \<open>functions'\<close>) and the table \<^verbatim>\<open>varMeta\<close>.
\<close>

record VarMeta =
  var_id :: VarId
  isSourceVar :: bool
  isReference :: bool
  originId :: VarId
  pointsTo :: "function_ptr option"
  offset :: "32 word"
  var_type :: VarType

record SimpleIr =
  pool :: "string list"
  functions' :: "function_ptr list"
  varMeta :: "VarMeta list"

text \<open>\<^verbatim>\<open>~SimpleIr\<close>: \<^verbatim>\<open>for (auto f : functions) delete f;\<close>.\<close>

fun delete_Functions :: "function_ptr list \<Rightarrow> heap \<Rightarrow> heap option" where
  "delete_Functions [] h = Some h"
| "delete_Functions (f # fs) h = do { h \<leftarrow> delete_Function f h; delete_Functions fs h }"

definition SimpleIr_destructor :: "SimpleIr \<Rightarrow> heap \<Rightarrow> heap option" where
  "SimpleIr_destructor ir h = delete_Functions (functions' ir) h"

definition addFunction :: "function_ptr \<Rightarrow> SimpleIr \<Rightarrow> SimpleIr" where
  "addFunction rec ir = ir\<lparr>functions' := functions' ir @ [rec]\<rparr>"


subsection \<open>Reachability and ownership\<close>

text \<open>
  The edges of the graph, the blocks reachable from a block, and the blocks reachable
  from the entry of a function.
\<close>

definition edges :: "heap \<Rightarrow> (block_ptr \<times> block_ptr) set" where
  "edges h = {(P, B). names_destination h P B}"

definition reach :: "heap \<Rightarrow> block_ptr \<Rightarrow> block_ptr set" where
  "reach h e = (edges h)\<^sup>* `` {e}"

definition function_blocks :: "heap \<Rightarrow> function_ptr \<Rightarrow> block_ptr set" where
  "function_blocks h f =
     (case load (function_heap h) f of None \<Rightarrow> {} | Some fn \<Rightarrow> reach h (entry fn))"

text \<open>The statement pointers and the jump pointer a block holds.\<close>

definition block_statements :: "heap \<Rightarrow> block_ptr \<Rightarrow> stmt_ptr list" where
  "block_statements h b = (case load (block_heap h) b of None \<Rightarrow> [] | Some blk \<Rightarrow> contents blk)"

definition block_jump :: "heap \<Rightarrow> block_ptr \<Rightarrow> jump_ptr option" where
  "block_jump h b = (case load (block_heap h) b of None \<Rightarrow> None | Some blk \<Rightarrow> transition blk)"

text \<open>
  The blocks of \<open>S\<close> own what they point to: each is an object, its statements are
  objects and it lists none twice, its jump (if it has one) is an object; and no two of
  them hold the same statement or the same jump.
\<close>

definition exclusively_owned :: "heap \<Rightarrow> block_ptr set \<Rightarrow> bool" where
  "exclusively_owned h S =
     ((\<forall>b \<in> S. load (block_heap h) b \<noteq> None \<and> distinct (block_statements h b) \<and>
         (\<forall>s \<in> set (block_statements h b). load (stmt_heap h) s \<noteq> None) \<and>
         (case block_jump h b of None \<Rightarrow> True | Some t \<Rightarrow> load (jump_heap h) t \<noteq> None)) \<and>
      (\<forall>b \<in> S. \<forall>b' \<in> S. b \<noteq> b' \<longrightarrow>
         set (block_statements h b) \<inter> set (block_statements h b') = {} \<and>
         (block_jump h b = None \<or> block_jump h b \<noteq> block_jump h b')))"

text \<open>
  Heap \<open>h'\<close> is heap \<open>h\<close> less the functions \<open>F\<close>, the blocks \<open>S\<close>, and the statements and
  jumps the blocks of \<open>S\<close> hold in \<open>h\<close>: those cells are empty, every other cell is as in
  \<open>h\<close>.
\<close>

definition released :: "heap \<Rightarrow> function_ptr set \<Rightarrow> block_ptr set \<Rightarrow> heap \<Rightarrow> bool" where
  "released h F S h' =
     ((\<forall>f. load (function_heap h') f = (if f \<in> F then None else load (function_heap h) f)) \<and>
      (\<forall>b. load (block_heap h') b = (if b \<in> S then None else load (block_heap h) b)) \<and>
      (\<forall>s. load (stmt_heap h') s =
             (if \<exists>b \<in> S. s \<in> set (block_statements h b) then None else load (stmt_heap h) s)) \<and>
      (\<forall>t. load (jump_heap h') t =
             (if \<exists>b \<in> S. block_jump h b = Some t then None else load (jump_heap h) t)))"

text \<open>
  The program owns its graph: it lists each function once, each is an object, no block is
  reachable from the entries of two functions, and the reachable blocks own what they
  point to.
\<close>

definition program_blocks :: "SimpleIr \<Rightarrow> heap \<Rightarrow> block_ptr set" where
  "program_blocks ir h = (\<Union>f \<in> set (functions' ir). function_blocks h f)"

definition program_owned :: "SimpleIr \<Rightarrow> heap \<Rightarrow> bool" where
  "program_owned ir h =
     (distinct (functions' ir) \<and>
      (\<forall>f \<in> set (functions' ir). load (function_heap h) f \<noteq> None) \<and>
      (\<forall>f \<in> set (functions' ir). \<forall>f' \<in> set (functions' ir).
         f \<noteq> f' \<longrightarrow> function_blocks h f \<inter> function_blocks h f' = {}) \<and>
      exclusively_owned h (program_blocks ir h))"

section \<open>Examples\<close>

subsection \<open>An example graph\<close>

text \<open>
  Block 0 (\<open>P\<close>) branches to block 1 (\<open>A\<close>) and block 2 (\<open>B\<close>); block 4 (\<open>E\<close>) has no
  statement and jumps to the terminal block 3 (\<open>C\<close>). Jump 2 is a conditional jump that no
  block holds yet.
\<close>

definition block_P :: Block where
  "block_P = \<lparr>transition = Some 0, name = ''P'', predecessors = {}, contents = [0]\<rparr>"

definition block_A :: Block where
  "block_A = \<lparr>transition = None, name = ''A'', predecessors = {0}, contents = []\<rparr>"

definition block_B :: Block where
  "block_B = \<lparr>transition = None, name = ''B'', predecessors = {0}, contents = [1]\<rparr>"

definition block_C :: Block where
  "block_C = \<lparr>transition = None, name = ''C'', predecessors = {4}, contents = []\<rparr>"

definition block_E :: Block where
  "block_E = \<lparr>transition = Some 1, name = ''E'', predecessors = {}, contents = []\<rparr>"

definition example_heap :: heap where
  "example_heap =
     \<lparr>block_heap = [Some block_P, Some block_A, Some block_B, Some block_C, Some block_E],
      jump_heap =
        [Some (JumpCond 1 2 (Variable 5)), Some (JumpAlways 3), Some (JumpCond 1 2 (Int' 1))],
      stmt_heap = [Some (Assignment 5 (Atomic (Int' 0))), Some (Return (Variable 5))],
      function_heap = []\<rparr>"

text \<open>The function of the example of C4 and C5: ordinary parameters 10 and 11, ref parameter 12.\<close>

definition example_function :: Function where
  "example_function =
     \<lparr>function_name = ''f'', function_id = 7, entry = 0, parametersIds = [10, 11],
      refParameterIds = [12], memoryCells = [], returnType = VT_Int, nativeAddress = None\<rparr>"

subsection \<open>An example program with a loop\<close>

text \<open>
  Function 0 enters at block 0, which jumps to the loop head 1; the head branches to the
  body 2, which jumps back to the head, and to the exit 3. Function 1 is a native stub
  with the placeholder block 4. Block 5 and statement 3 belong to no function.
\<close>

definition function_main :: Function where
  "function_main =
     \<lparr>function_name = ''main'', function_id = 0, entry = 0, parametersIds = [],
      refParameterIds = [], memoryCells = [], returnType = VT_Int, nativeAddress = None\<rparr>"

definition function_sin :: Function where
  "function_sin =
     \<lparr>function_name = ''sin'', function_id = 1, entry = 4, parametersIds = [2],
      refParameterIds = [], memoryCells = [], returnType = VT_Double,
      nativeAddress = Some 4096\<rparr>"

definition loop_heap :: heap where
  "loop_heap =
     \<lparr>block_heap =
        [Some \<lparr>transition = Some 0, name = ''entry'', predecessors = {}, contents = [0]\<rparr>,
         Some \<lparr>transition = Some 1, name = ''head'', predecessors = {0, 2}, contents = []\<rparr>,
         Some \<lparr>transition = Some 2, name = ''body'', predecessors = {1}, contents = [1]\<rparr>,
         Some \<lparr>transition = None, name = ''exit'', predecessors = {1}, contents = [2]\<rparr>,
         Some \<lparr>transition = None, name = ''NATIVE_STUB'', predecessors = {}, contents = []\<rparr>,
         Some \<lparr>transition = None, name = ''spare'', predecessors = {}, contents = [3]\<rparr>],
      jump_heap =
        [Some (JumpAlways 1), Some (JumpCond 2 3 (Variable 1)), Some (JumpAlways 1)],
      stmt_heap =
        [Some (Assignment 1 (Atomic (Int' 0))), Some (Print (Variable 1)),
         Some (Return (Variable 1)), Some (Print (Int' 7))],
      function_heap = [Some function_main, Some function_sin]\<rparr>"

definition example_program :: SimpleIr where
  "example_program = \<lparr>pool = [''x''], functions' = [0, 1], varMeta = []\<rparr>"

section \<open>Argument indexing\<close>

lemma decimal_digit: "n < 10 \<Longrightarrow> decimal n = [digit n]"
  by (simp add: decimal.simps)

text \<open>
  C4. For a function with ordinary parameter list \<open>parametersIds\<close> and ref-parameter list
  \<open>refParameterIds\<close>, \<open>argument i\<close> returns \<open>parametersIds[i]\<close> for every \<open>i\<close> below the
  number of ordinary parameters, and \<open>refParameterIds[i - parametersIds.size()]\<close> for every
  \<open>i\<close> from there up to the total arity. In particular, with the two ordinary parameters
  \<open>a\<close>, \<open>b\<close> and the ref parameter \<open>c\<close>, the arguments 0, 1 and 2 are \<open>a\<close>, \<open>b\<close> and \<open>c\<close>.
\<close>

theorem argument_mapping:
  "(i < length (parametersIds f) \<longrightarrow> argument f i = Inr (parametersIds f ! i)) \<and>
   (length (parametersIds f) \<le> i \<and> i < length (parametersIds f) + length (refParameterIds f) \<longrightarrow>
      argument f i = Inr (refParameterIds f ! (i - length (parametersIds f)))) \<and>
   (parametersIds f = [a, b] \<and> refParameterIds f = [c] \<longrightarrow>
      argument f 0 = Inr a \<and> argument f 1 = Inr b \<and> argument f 2 = Inr c)"
  by (auto simp: argument_def Let_def)

theorem argument_mapping_witness:
  "0 < length (parametersIds example_function) \<and>
   argument example_function 0 = Inr 10 \<and>
   argument example_function 1 = Inr 11 \<and>
   length (parametersIds example_function) \<le> 2 \<and>
   2 < length (parametersIds example_function) + length (refParameterIds example_function) \<and>
   argument example_function 2 = Inr 12"
proof -
  have lists: "parametersIds example_function = [10, 11] \<and> refParameterIds example_function = [12]"
    by (simp add: example_function_def)
  have ordinary: "0 < length (parametersIds example_function)"
    "1 < length (parametersIds example_function)"
    using lists by simp_all
  have ref: "length (parametersIds example_function) \<le> 2 \<and>
             2 < length (parametersIds example_function) + length (refParameterIds example_function)"
    using lists by simp
  show ?thesis
    using argument_mapping [of 0 example_function 10 11 12]
      argument_mapping [of 1 example_function 10 11 12]
      argument_mapping [of 2 example_function 10 11 12]
      lists ordinary ref
    by simp
qed

text \<open>
  Every index from the total arity on fails with \<open>out_of_range\<close>; the message names the
  total arity, and the index less the number of ordinary parameters.
\<close>

lemma argument_out_of_range:
  assumes "length (parametersIds f) + length (refParameterIds f) \<le> i"
  shows "argument f i =
           Inl (out_of_range
             (''Argument index is out of range: total args: '' @ decimal (arguments f)
                @ '' index '' @ decimal (i - length (parametersIds f))))"
  using assms by (simp add: argument_def Let_def)

text \<open>
  C5 (at the failing input). For the function with the two ordinary parameters 10 and 11
  and the ref parameter 12, \<open>argument 3\<close> fails with an out-of-range error and names the
  total arity 3, but the index in its message is 1, the requested index less the number of
  ordinary parameters, not the requested index 3.
\<close>

theorem argument_out_of_range_message:
  "argument example_function 3
     = Inl (out_of_range ''Argument index is out of range: total args: 3 index 1'')"
  by (simp add: argument_def arguments_def decimal_digit digit_def example_function_def)

section \<open>Narrowing queries\<close>

text \<open>
  C8. A node built as a \<open>BinOp\<close> has the discriminant \<open>IT_BinOp\<close>, and so on for each of
  the seventeen variants. For every node \<open>e\<close> and every variant \<open>X\<close>, \<open>isX e\<close> holds exactly
  when the discriminant of \<open>e\<close> is \<open>IT_X\<close>, and \<open>asX e\<close> is the node \<open>e\<close> itself then and
  null otherwise; so a node of variant \<open>X\<close> answers true and itself to its own queries and
  false and null to the queries of every other variant. No node has the discriminant
  \<open>IT_INVALID\<close>. The queries are total functions that return a value: none has an error
  result.
\<close>

theorem narrowing_queries_agree:
  "getType (Elem_Expression (BinOp l r bt)) = IT_BinOp \<and>
   getType (Elem_Expression (UnOp a ut)) = IT_UnOp \<and>
   getType (Elem_Expression (Atomic (Variable v))) = IT_Variable \<and>
   getType (Elem_Statement (Return a)) = IT_Return \<and>
   getType (Elem_Statement (Phi v vs)) = IT_Phi \<and>
   getType (Elem_Expression (Atomic (Int' i))) = IT_Int \<and>
   getType (Elem_Expression (Atomic (Double d))) = IT_Double \<and>
   getType (Elem_Expression (Atomic (Ptr p s))) = IT_Ptr \<and>
   getType (Elem_Block b) = IT_Block \<and>
   getType (Elem_Statement (Assignment v x)) = IT_Assignment \<and>
   getType (Elem_Expression (Call fid ps rs)) = IT_Call \<and>
   getType (Elem_Statement (Print a)) = IT_Print \<and>
   getType (Elem_Function f) = IT_Function \<and>
   getType (Elem_Jump (JumpAlways dest)) = IT_JumpAlways \<and>
   getType (Elem_Jump (JumpCond yes no c)) = IT_JumpCond \<and>
   getType (Elem_Statement (WriteRef a v)) = IT_WriteRef \<and>
   getType (Elem_Expression (Atomic (ReadRef v))) = IT_ReadRef \<and>
   (isBinOp e = (getType e = IT_BinOp)) \<and>
   (asBinOp e = (if getType e = IT_BinOp then Some e else None)) \<and>
   (isUnOp e = (getType e = IT_UnOp)) \<and>
   (asUnOp e = (if getType e = IT_UnOp then Some e else None)) \<and>
   (isVariable e = (getType e = IT_Variable)) \<and>
   (asVariable e = (if getType e = IT_Variable then Some e else None)) \<and>
   (isReturn e = (getType e = IT_Return)) \<and>
   (asReturn e = (if getType e = IT_Return then Some e else None)) \<and>
   (isPhi e = (getType e = IT_Phi)) \<and>
   (asPhi e = (if getType e = IT_Phi then Some e else None)) \<and>
   (isInt e = (getType e = IT_Int)) \<and>
   (asInt e = (if getType e = IT_Int then Some e else None)) \<and>
   (isDouble e = (getType e = IT_Double)) \<and>
   (asDouble e = (if getType e = IT_Double then Some e else None)) \<and>
   (isPtr e = (getType e = IT_Ptr)) \<and>
   (asPtr e = (if getType e = IT_Ptr then Some e else None)) \<and>
   (isBlock e = (getType e = IT_Block)) \<and>
   (asBlock e = (if getType e = IT_Block then Some e else None)) \<and>
   (isAssignment e = (getType e = IT_Assignment)) \<and>
   (asAssignment e = (if getType e = IT_Assignment then Some e else None)) \<and>
   (isCall e = (getType e = IT_Call)) \<and>
   (asCall e = (if getType e = IT_Call then Some e else None)) \<and>
   (isPrint e = (getType e = IT_Print)) \<and>
   (asPrint e = (if getType e = IT_Print then Some e else None)) \<and>
   (isFunction e = (getType e = IT_Function)) \<and>
   (asFunction e = (if getType e = IT_Function then Some e else None)) \<and>
   (isJumpAlways e = (getType e = IT_JumpAlways)) \<and>
   (asJumpAlways e = (if getType e = IT_JumpAlways then Some e else None)) \<and>
   (isJumpCond e = (getType e = IT_JumpCond)) \<and>
   (asJumpCond e = (if getType e = IT_JumpCond then Some e else None)) \<and>
   (isWriteRef e = (getType e = IT_WriteRef)) \<and>
   (asWriteRef e = (if getType e = IT_WriteRef then Some e else None)) \<and>
   (isReadRef e = (getType e = IT_ReadRef)) \<and>
   (asReadRef e = (if getType e = IT_ReadRef then Some e else None)) \<and>
   getType e \<noteq> IT_INVALID"
  by (cases e rule: getType.cases) simp_all

section \<open>Facts about stores\<close>

lemma load_store [simp]:
  "load (store s p v) q = (if q = p \<and> p < length s then Some v else load s q)"
  by (auto simp: load_def store_def)

lemma length_store [simp]: "length (store s p v) = length s"
  by (simp add: store_def)

lemma load_Some_less: "load s p = Some v \<Longrightarrow> p < length s"
  by (auto simp: load_def split: if_splits)

lemma load_append [simp]: "load (s @ [x]) p = (if p = length s then x else load s p)"
  by (auto simp: load_def nth_append)

lemma load_update_None [simp]: "load (s[p := None]) q = (if q = p then None else load s q)"
  by (auto simp: load_def)

lemma load_length [simp]: "load s (length s) = None"
  by (simp add: load_def)

lemma objects_iff: "p \<in> objects s \<longleftrightarrow> load s p \<noteq> None"
  by (auto simp: objects_def load_def)

lemma isJumpAlways_Jump: "isJumpAlways (Elem_Jump y) = (\<exists>d. y = JumpAlways d)"
  by (cases y) auto

lemma getTransition_Some:
  "getTransition Q h = Some t \<longleftrightarrow> (\<exists>b. load (block_heap h) Q = Some b \<and> transition b = t)"
  by (auto simp: getTransition_def split: option.splits bind_splits)

lemma names_destination_alt:
  "names_destination h P B =
     (\<exists>j jump. getTransition P h = Some (Some j) \<and> load (jump_heap h) j = Some jump \<and>
        B \<in> set (destinations jump))"
  by (auto simp: names_destination_def getTransition_def split: option.splits)

lemma example_blocks:
  "load (block_heap example_heap) 0 = Some block_P"
  "load (block_heap example_heap) 1 = Some block_A"
  "load (block_heap example_heap) 2 = Some block_B"
  "load (block_heap example_heap) 3 = Some block_C"
  "load (block_heap example_heap) 4 = Some block_E"
  by (simp_all add: example_heap_def load_def)

lemma example_jumps:
  "load (jump_heap example_heap) 0 = Some (JumpCond 1 2 (Variable 5))"
  "load (jump_heap example_heap) 1 = Some (JumpAlways 3)"
  "load (jump_heap example_heap) 2 = Some (JumpCond 1 2 (Int' 1))"
  by (simp_all add: example_heap_def load_def)

lemma example_consistent: "predecessor_consistent example_heap"
  by code_simp

lemma example_valid: "transitions_valid example_heap"
  by code_simp

section \<open>Classification of blocks\<close>

text \<open>
  C6. For every block of the heap whose transition, if it has one, points to a jump,
  \<open>isEmpty\<close> returns true exactly when the block has no statement, has a jump, and the
  jump is unconditional. In particular a block with no statement and an unconditional jump
  reports true, and the same block with one \<open>Print\<close> statement appended to its contents
  reports false.
\<close>

theorem isEmpty_classification:
  assumes "load (block_heap h) this = Some b"
    and "\<forall>j. transition b = Some j \<longrightarrow> load (jump_heap h) j \<noteq> None"
  shows "isEmpty this h =
           Some (contents b = [] \<and>
                 (\<exists>j d. transition b = Some j \<and> load (jump_heap h) j = Some (JumpAlways d))) \<and>
         (contents b = [] \<and> transition b = Some j \<and> load (jump_heap h) j = Some (JumpAlways d) \<longrightarrow>
            isEmpty this h = Some True \<and>
            isEmpty this
              (h\<lparr>stmt_heap := stmt_heap h @ [Some (Print a)],
                 block_heap := store (block_heap h) this
                    (b\<lparr>contents := contents b @ [length (stmt_heap h)]\<rparr>)\<rparr>) = Some False)"
proof -
  have lt: "this < length (block_heap h)"
    using assms(1) by (rule load_Some_less)
  have general: "isEmpty this h =
           Some (contents b = [] \<and>
                 (\<exists>j d. transition b = Some j \<and> load (jump_heap h) j = Some (JumpAlways d)))"
    using assms
    by (cases "transition b")
      (auto simp: isEmpty_def isLastBlock_def getTransition_def isJumpAlways_Jump)
  have added: "isEmpty this
              (h\<lparr>stmt_heap := stmt_heap h @ [Some (Print a)],
                 block_heap := store (block_heap h) this
                    (b\<lparr>contents := contents b @ [length (stmt_heap h)]\<rparr>)\<rparr>) = Some False"
    using lt by (simp add: isEmpty_def)
  show ?thesis
    using general added by auto
qed

theorem isEmpty_classification_witness:
  "isEmpty 4 example_heap = Some True \<and>
   isEmpty 4
     (example_heap\<lparr>stmt_heap := stmt_heap example_heap @ [Some (Print (Variable 5))],
        block_heap := store (block_heap example_heap) 4
           (block_E\<lparr>contents := contents block_E @ [length (stmt_heap example_heap)]\<rparr>)\<rparr>)
     = Some False"
proof -
  have valid: "\<forall>j. transition block_E = Some j \<longrightarrow> load (jump_heap example_heap) j \<noteq> None"
    using example_jumps(2) by (simp add: block_E_def)
  show ?thesis
    using isEmpty_classification [OF example_blocks(5) valid, of 1 3 "Variable 5"]
      example_jumps(2)
    by (simp add: block_E_def)
qed

text \<open>
  C10. For every block of the heap, \<open>setTransition\<close> with the null pointer succeeds and
  makes the block terminal: \<open>isLastBlock\<close> returns true and \<open>getTransition\<close> returns null.
  The predecessor set of every block is as before. In the new state \<open>isEmpty\<close> returns
  false: it has a result, so it did not go through the null transition.
\<close>

theorem setTransition_NULL:
  assumes "load (block_heap h) this = Some b"
  shows "\<exists>h'. setTransition this None h = Some h' \<and>
           isLastBlock this h' = Some True \<and>
           getTransition this h' = Some None \<and>
           isEmpty this h' = Some False \<and>
           (\<forall>B. map_option predecessors (load (block_heap h') B) =
                   map_option predecessors (load (block_heap h) B))"
proof -
  have lt: "this < length (block_heap h)"
    using assms by (rule load_Some_less)
  show ?thesis
    using assms lt
    by (auto simp: setTransition_def isLastBlock_def getTransition_def isEmpty_def)
qed

theorem setTransition_NULL_witness:
  "\<exists>h'. setTransition 4 None example_heap = Some h' \<and>
      isLastBlock 4 h' = Some True \<and>
      getTransition 4 h' = Some None \<and>
      isEmpty 4 h' = Some False \<and>
      (\<forall>B. map_option predecessors (load (block_heap h') B) =
              map_option predecessors (load (block_heap example_heap) B))"
  by (rule setTransition_NULL [OF example_blocks(5)])

section \<open>Linking\<close>

text \<open>
  What \<open>link_Block\<close> does to a block whose transition, if it has one, points to a jump,
  when \<open>next\<close> is a block: the blocks of the heap stay the same ones, the transition of
  \<open>this\<close> is the new jump, \<open>this\<close> joins the predecessors of \<open>next\<close> and no other set
  changes, and the jump store gains the new jump and loses the old one.
\<close>

lemma link_Block_effect:
  assumes "load (block_heap h) this = Some b"
    and "\<forall>t. transition b = Some t \<longrightarrow> load (jump_heap h) t \<noteq> None"
    and "load (block_heap h) next \<noteq> None"
  shows "\<exists>h'. link_Block this next h = Some h' \<and>
          (\<forall>Q. (load (block_heap h') Q \<noteq> None) = (load (block_heap h) Q \<noteq> None)) \<and>
          (\<forall>Q. getTransition Q h' =
                 (if Q = this then Some (Some (length (jump_heap h))) else getTransition Q h)) \<and>
          (\<forall>Q. predecessors_of h' Q =
                 (if Q = next then insert this (predecessors_of h Q) else predecessors_of h Q)) \<and>
          (\<forall>x. load (jump_heap h') x =
                 (if x = length (jump_heap h) then Some (JumpAlways next)
                  else if transition b = Some x then None else load (jump_heap h) x))"
proof -
  have lt: "this < length (block_heap h)"
    using assms(1) by (rule load_Some_less)
  obtain n where n: "load (block_heap h) next = Some n"
    using assms(3) by auto
  have ltn: "next < length (block_heap h)"
    using n by (rule load_Some_less)
  show ?thesis
  proof (cases "transition b")
    case None
    then show ?thesis
      using assms(1) lt n ltn
      by (auto simp: link_Block_def new_def addPredecessor_def getTransition_def
          predecessors_of_def)
  next
    case (Some t)
    then obtain old where old: "load (jump_heap h) t = Some old"
      using assms(2) by auto
    have "t < length (jump_heap h)"
      using old by (rule load_Some_less)
    then show ?thesis
      using assms(1) lt n ltn Some old
      by (auto simp: link_Block_def new_def addPredecessor_def getTransition_def
          predecessors_of_def delete_Jump_def delete_def)
  qed
qed

lemma link_JumpCond_result:
  assumes "load (block_heap h) this = Some b"
    and "\<forall>t. transition b = Some t \<longrightarrow> load (jump_heap h) t \<noteq> None"
    and "load (jump_heap h) cond = Some (JumpCond yes no c)"
    and "transition b \<noteq> Some cond"
    and "load (block_heap h) yes \<noteq> None"
    and "load (block_heap h) no \<noteq> None"
  shows "\<exists>h'. link_JumpCond this cond h = Some h' \<and> getTransition this h' = Some (Some cond) \<and>
          load (jump_heap h') cond = Some (JumpCond yes no c) \<and>
          this \<in> predecessors_of h' yes \<and> this \<in> predecessors_of h' no \<and>
          (\<forall>t. transition b = Some t \<longrightarrow> load (jump_heap h') t = None)"
proof -
  have lt: "this < length (block_heap h)"
    using assms(1) by (rule load_Some_less)
  obtain y where y: "load (block_heap h) yes = Some y"
    using assms(5) by auto
  obtain n where n: "load (block_heap h) no = Some n"
    using assms(6) by auto
  have lty: "yes < length (block_heap h)"
    using y by (rule load_Some_less)
  have ltn: "no < length (block_heap h)"
    using n by (rule load_Some_less)
  show ?thesis
  proof (cases "transition b")
    case None
    then show ?thesis
      using assms(1,3) lt y n lty ltn
      by (auto simp: link_JumpCond_def addPredecessor_def getTransition_def
          predecessors_of_def)
  next
    case (Some t)
    then obtain old where old: "load (jump_heap h) t = Some old"
      using assms(2) by auto
    have "t \<noteq> cond"
      using Some assms(4) by simp
    then show ?thesis
      using assms(1,3) lt y n lty ltn Some old
      by (auto simp: link_JumpCond_def addPredecessor_def getTransition_def
          predecessors_of_def delete_Jump_def delete_def)
  qed
qed

text \<open>
  C7. Let \<open>this\<close> be a block whose transition, if it has one, points to a jump. When
  \<open>next\<close> is a block, \<open>link_Block this next\<close> succeeds; afterwards the transition of \<open>this\<close>
  is a jump that was no object before the call, it is the unconditional jump to \<open>next\<close>,
  and \<open>this\<close> is among the predecessors of \<open>next\<close>. When \<open>cond\<close> is a conditional jump to
  the blocks \<open>yes\<close> and \<open>no\<close> and is not the jump \<open>this\<close> already holds,
  \<open>link_JumpCond this cond\<close> succeeds; afterwards the transition of \<open>this\<close> is \<open>cond\<close>,
  unchanged, and \<open>this\<close> is among the predecessors of \<open>yes\<close> and of \<open>no\<close>. In both cases
  the jump that \<open>this\<close> held before the call is no longer an object of the heap.
\<close>

theorem link_postconditions:
  assumes "load (block_heap h) this = Some b"
    and "\<forall>t. transition b = Some t \<longrightarrow> load (jump_heap h) t \<noteq> None"
  shows "(load (block_heap h) next \<noteq> None \<longrightarrow>
           (\<exists>h' j. link_Block this next h = Some h' \<and>
              getTransition this h' = Some (Some j) \<and>
              load (jump_heap h) j = None \<and>
              load (jump_heap h') j = Some (JumpAlways next) \<and>
              this \<in> predecessors_of h' next \<and>
              (\<forall>t. transition b = Some t \<longrightarrow> load (jump_heap h') t = None))) \<and>
         (load (jump_heap h) cond = Some (JumpCond yes no c) \<and> transition b \<noteq> Some cond \<and>
          load (block_heap h) yes \<noteq> None \<and> load (block_heap h) no \<noteq> None \<longrightarrow>
           (\<exists>h'. link_JumpCond this cond h = Some h' \<and>
              getTransition this h' = Some (Some cond) \<and>
              load (jump_heap h') cond = Some (JumpCond yes no c) \<and>
              this \<in> predecessors_of h' yes \<and> this \<in> predecessors_of h' no \<and>
              (\<forall>t. transition b = Some t \<longrightarrow> load (jump_heap h') t = None)))"
proof (intro conjI impI)
  assume nx: "load (block_heap h) next \<noteq> None"
  from link_Block_effect [OF assms nx]
  obtain h' where h': "link_Block this next h = Some h'"
    and tr: "\<And>Q. getTransition Q h' =
               (if Q = this then Some (Some (length (jump_heap h))) else getTransition Q h)"
    and pr: "\<And>Q. predecessors_of h' Q =
               (if Q = next then insert this (predecessors_of h Q) else predecessors_of h Q)"
    and ju: "\<And>x. load (jump_heap h') x =
               (if x = length (jump_heap h) then Some (JumpAlways next)
                else if transition b = Some x then None else load (jump_heap h) x)"
    by auto
  have old: "\<forall>t. transition b = Some t \<longrightarrow> load (jump_heap h') t = None"
    using assms(2) by (auto simp: ju)
  show "\<exists>h' j. link_Block this next h = Some h' \<and>
              getTransition this h' = Some (Some j) \<and>
              load (jump_heap h) j = None \<and>
              load (jump_heap h') j = Some (JumpAlways next) \<and>
              this \<in> predecessors_of h' next \<and>
              (\<forall>t. transition b = Some t \<longrightarrow> load (jump_heap h') t = None)"
    using h' old by (intro exI [of _ h'] exI [of _ "length (jump_heap h)"]) (simp add: tr pr ju)
next
  assume "load (jump_heap h) cond = Some (JumpCond yes no c) \<and> transition b \<noteq> Some cond \<and>
          load (block_heap h) yes \<noteq> None \<and> load (block_heap h) no \<noteq> None"
  then show "\<exists>h'. link_JumpCond this cond h = Some h' \<and>
              getTransition this h' = Some (Some cond) \<and>
              load (jump_heap h') cond = Some (JumpCond yes no c) \<and>
              this \<in> predecessors_of h' yes \<and> this \<in> predecessors_of h' no \<and>
              (\<forall>t. transition b = Some t \<longrightarrow> load (jump_heap h') t = None)"
    using link_JumpCond_result [OF assms] by blast
qed

theorem link_postconditions_witness:
  "(\<exists>h' j. link_Block 0 3 example_heap = Some h' \<and>
      getTransition 0 h' = Some (Some j) \<and>
      load (jump_heap example_heap) j = None \<and>
      load (jump_heap h') j = Some (JumpAlways 3) \<and>
      0 \<in> predecessors_of h' 3 \<and>
      load (jump_heap h') 0 = None) \<and>
   (\<exists>h'. link_JumpCond 0 2 example_heap = Some h' \<and>
      getTransition 0 h' = Some (Some 2) \<and>
      load (jump_heap h') 2 = Some (JumpCond 1 2 (Int' 1)) \<and>
      0 \<in> predecessors_of h' 1 \<and> 0 \<in> predecessors_of h' 2 \<and>
      load (jump_heap h') 0 = None)"
proof -
  have valid: "\<forall>t. transition block_P = Some t \<longrightarrow> load (jump_heap example_heap) t \<noteq> None"
    using example_jumps(1) by (simp add: block_P_def)
  show ?thesis
    using link_postconditions [OF example_blocks(1) valid, of 3 2 1 2 "Int' 1"]
      example_blocks example_jumps
    by (simp add: block_P_def)
qed

text \<open>
  C1 (the failing sequence). Take a heap that is predecessor-consistent and whose
  transitions are valid, a terminal block \<open>P\<close> and two different blocks \<open>A\<close> and \<open>B\<close>. Then
  \<open>link_Block P A\<close> succeeds and leaves the heap consistent, and \<open>link_Block P B\<close> on the
  result succeeds too, but after it \<open>P\<close> is still among the predecessors of \<open>A\<close> while the
  jump of \<open>P\<close> does not name \<open>A\<close>: the heap is no longer predecessor-consistent.
\<close>

theorem link_Block_stale_predecessor:
  assumes cons: "predecessor_consistent h"
    and valid: "transitions_valid h"
    and P: "load (block_heap h) P = Some p"
    and terminal: "transition p = None"
    and A: "load (block_heap h) A \<noteq> None"
    and B: "load (block_heap h) B \<noteq> None"
    and AB: "A \<noteq> B"
  shows "\<exists>h1 h2. link_Block P A h = Some h1 \<and> predecessor_consistent h1 \<and>
           link_Block P B h1 = Some h2 \<and>
           P \<in> predecessors_of h2 A \<and> \<not> names_destination h2 P A \<and>
           \<not> predecessor_consistent h2"
proof -
  let ?j = "length (jump_heap h)"
  from link_Block_effect [OF P _ A] terminal
  obtain h1 where h1: "link_Block P A h = Some h1"
    and live1: "\<And>Q. (load (block_heap h1) Q \<noteq> None) = (load (block_heap h) Q \<noteq> None)"
    and tr1: "\<And>Q. getTransition Q h1 = (if Q = P then Some (Some ?j) else getTransition Q h)"
    and pr1: "\<And>Q. predecessors_of h1 Q =
                (if Q = A then insert P (predecessors_of h Q) else predecessors_of h Q)"
    and ju1: "\<And>x. load (jump_heap h1) x =
                (if x = ?j then Some (JumpAlways A) else load (jump_heap h) x)"
    by auto
  have Pterm: "getTransition P h = Some None"
    using P terminal by (simp add: getTransition_Some)
  have nP: "\<And>X. \<not> names_destination h P X"
    using Pterm by (simp add: names_destination_alt)
  have names1: "names_destination h1 Q X =
                  (if Q = P then X = A else names_destination h Q X)"
    if Q: "load (block_heap h) Q \<noteq> None" for Q X
  proof (cases "Q = P")
    case True
    then show ?thesis
      by (simp add: names_destination_alt tr1 ju1)
  next
    case False
    have "Q \<in> objects (block_heap h)"
      using Q by (simp add: objects_iff)
    then have "\<And>t. getTransition Q h = Some (Some t) \<Longrightarrow> load (jump_heap h) t \<noteq> None"
      using valid by (auto simp: transitions_valid_def split: option.splits)
    then have "\<And>t. getTransition Q h = Some (Some t) \<Longrightarrow> t \<noteq> ?j"
      by auto
    then show ?thesis
      using False by (auto simp: names_destination_alt tr1 ju1)
  qed
  have cons1: "predecessor_consistent h1"
    unfolding predecessor_consistent_def
  proof (intro ballI)
    fix Q X
    assume "Q \<in> objects (block_heap h1)" and "X \<in> objects (block_heap h1)"
    then have Q: "load (block_heap h) Q \<noteq> None" and X: "load (block_heap h) X \<noteq> None"
      using live1 by (simp_all add: objects_iff)
    have old: "(Q \<in> predecessors_of h X) = names_destination h Q X"
      using cons Q X by (simp add: predecessor_consistent_def objects_iff)
    show "(Q \<in> predecessors_of h1 X) = names_destination h1 Q X"
      using old nP by (auto simp: pr1 names1 [OF Q])
  qed
  obtain p1 where P1: "load (block_heap h1) P = Some p1" and t1: "transition p1 = Some ?j"
    using tr1 [of P] by (auto simp: getTransition_Some)
  have v1: "\<forall>t. transition p1 = Some t \<longrightarrow> load (jump_heap h1) t \<noteq> None"
    using t1 by (simp add: ju1)
  have B1: "load (block_heap h1) B \<noteq> None"
    using B live1 by simp
  let ?k = "length (jump_heap h1)"
  from link_Block_effect [OF P1 v1 B1]
  obtain h2 where h2: "link_Block P B h1 = Some h2"
    and live2: "\<And>Q. (load (block_heap h2) Q \<noteq> None) = (load (block_heap h1) Q \<noteq> None)"
    and tr2: "\<And>Q. getTransition Q h2 = (if Q = P then Some (Some ?k) else getTransition Q h1)"
    and pr2: "\<And>Q. predecessors_of h2 Q =
                (if Q = B then insert P (predecessors_of h1 Q) else predecessors_of h1 Q)"
    and ju2: "\<And>x. load (jump_heap h2) x =
                (if x = ?k then Some (JumpAlways B)
                 else if transition p1 = Some x then None else load (jump_heap h1) x)"
    by auto
  have stale: "P \<in> predecessors_of h2 A"
    using AB by (simp add: pr2 pr1)
  have unnamed: "\<not> names_destination h2 P A"
    using AB by (simp add: names_destination_alt tr2 ju2)
  have "P \<in> objects (block_heap h2)" and "A \<in> objects (block_heap h2)"
    using P A live1 live2 by (simp_all add: objects_iff)
  then have "\<not> predecessor_consistent h2"
    using stale unnamed by (auto simp: predecessor_consistent_def)
  then show ?thesis
    using h1 cons1 h2 stale unnamed by blast
qed

theorem link_Block_stale_predecessor_witness:
  "predecessor_consistent example_heap \<and>
   (\<exists>h1 h2. link_Block 3 1 example_heap = Some h1 \<and> predecessor_consistent h1 \<and>
      link_Block 3 2 h1 = Some h2 \<and>
      3 \<in> predecessors_of h2 1 \<and> \<not> names_destination h2 3 1 \<and>
      \<not> predecessor_consistent h2)"
proof -
  have terminal: "transition block_C = None"
    by (simp add: block_C_def)
  have A: "load (block_heap example_heap) 1 \<noteq> None"
    and B: "load (block_heap example_heap) 2 \<noteq> None"
    using example_blocks by simp_all
  have AB: "(1::nat) \<noteq> 2"
    by simp
  show ?thesis
    using link_Block_stale_predecessor
      [OF example_consistent example_valid example_blocks(4) terminal A B AB]
      example_consistent
    by simp
qed

section \<open>Relinking\<close>

text \<open>
  C2. Let the jump of block \<open>P\<close> be conditional with the destinations \<open>A\<close> and \<open>B\<close>, in
  either order, \<open>A\<close> different from \<open>B\<close>; let \<open>A\<close> and \<open>C\<close> be blocks, \<open>C\<close> different from
  \<open>A\<close> and, if \<open>C\<close> is \<open>B\<close>, let \<open>P\<close> be registered with \<open>B\<close> already. Then \<open>relink P A C\<close>
  returns true; afterwards the jump of \<open>P\<close> is the same conditional jump with \<open>C\<close> in the
  place of \<open>A\<close> and \<open>B\<close> where it was, \<open>P\<close> is not among the predecessors of \<open>A\<close>, it is
  among those of \<open>C\<close>, and the predecessors of \<open>B\<close> are as before.
\<close>

theorem relink_correct:
  assumes "load (block_heap h) P = Some p"
    and "transition p = Some j"
    and "load (jump_heap h) j = Some (JumpCond yes no c)"
    and "(yes = A \<and> no = B) \<or> (yes = B \<and> no = A)"
    and "A \<noteq> B" and "A \<noteq> C"
    and "C = B \<longrightarrow> P \<in> predecessors_of h B"
    and "load (block_heap h) A \<noteq> None"
    and "load (block_heap h) C \<noteq> None"
  shows "\<exists>h'. relink P A C h = Some (True, h') \<and>
           getTransition P h' = Some (Some j) \<and>
           load (jump_heap h') j = Some (if yes = A then JumpCond C B c else JumpCond B C c) \<and>
           P \<notin> predecessors_of h' A \<and>
           P \<in> predecessors_of h' C \<and>
           predecessors_of h' B = predecessors_of h B"
proof -
  have lt: "P < length (block_heap h)"
    using assms(1) by (rule load_Some_less)
  have ltj: "j < length (jump_heap h)"
    using assms(3) by (rule load_Some_less)
  obtain a where a: "load (block_heap h) A = Some a"
    using assms(8) by auto
  obtain c' where c': "load (block_heap h) C = Some c'"
    using assms(9) by auto
  have lta: "A < length (block_heap h)"
    using a by (rule load_Some_less)
  have ltc: "C < length (block_heap h)"
    using c' by (rule load_Some_less)
  show ?thesis
    using assms(1-7) lt ltj a c' lta ltc
    by (auto simp: relink_def removePredecessor_def addPredecessor_def getTransition_def
        predecessors_of_def)
qed

theorem relink_correct_witness:
  "\<exists>h'. relink 0 1 3 example_heap = Some (True, h') \<and>
      getTransition 0 h' = Some (Some 0) \<and>
      load (jump_heap h') 0 = Some (JumpCond 3 2 (Variable 5)) \<and>
      0 \<notin> predecessors_of h' 1 \<and>
      0 \<in> predecessors_of h' 3 \<and>
      predecessors_of h' 2 = predecessors_of example_heap 2"
proof -
  have t: "transition block_P = Some 0"
    by (simp add: block_P_def)
  have d: "((1::nat) = 1 \<and> (2::nat) = 2) \<or> ((1::nat) = 2 \<and> (2::nat) = 1)"
    by simp
  have ne: "(1::nat) \<noteq> 2" "(1::nat) \<noteq> 3"
    by simp_all
  have reg: "(3::nat) = 2 \<longrightarrow> 0 \<in> predecessors_of example_heap 2"
    by simp
  have live: "load (block_heap example_heap) 1 \<noteq> None" "load (block_heap example_heap) 3 \<noteq> None"
    using example_blocks by simp_all
  show ?thesis
    using relink_correct [OF example_blocks(1) t example_jumps(1) d ne reg live]
    by simp
qed

text \<open>
  C3. Let \<open>P\<close> be a block whose transition, if it has one, points to a jump, and let
  \<open>oldChild\<close> be no destination of that jump (or \<open>P\<close> have no jump). Then
  \<open>relink P oldChild newChild\<close> returns false and the heap it returns is the heap it was
  given: the jump of \<open>P\<close> and every predecessor set are as before.
\<close>

theorem relink_failure_atomic:
  assumes "load (block_heap h) P = Some p"
    and "\<forall>t. transition p = Some t \<longrightarrow> load (jump_heap h) t \<noteq> None"
    and "\<not> names_destination h P oldChild"
  shows "relink P oldChild newChild h = Some (False, h)"
  using assms
  by (auto simp: relink_def names_destination_def split: option.splits)

theorem relink_failure_atomic_witness:
  "\<not> names_destination example_heap 0 3 \<and> relink 0 3 1 example_heap = Some (False, example_heap)"
proof -
  have valid: "\<forall>t. transition block_P = Some t \<longrightarrow> load (jump_heap example_heap) t \<noteq> None"
    using example_jumps(1) by (simp add: block_P_def)
  have no_edge: "\<not> names_destination example_heap 0 3"
    using example_blocks(1) example_jumps(1) by (simp add: names_destination_def block_P_def)
  show ?thesis
    using relink_failure_atomic [OF example_blocks(1) valid no_edge, of 1] no_edge
    by simp
qed

section \<open>Teardown of a program\<close>

subsection \<open>The walk visits the reachable blocks\<close>

lemma edges_successors:
  "(p, q) \<in> edges h \<longleftrightarrow> (\<exists>ss. successors h p = Some ss \<and> q \<in> set ss)"
  by (auto simp: edges_def names_destination_def successors_def split: option.splits)

lemma walk_distinct: "walk h todo seen = Some bs \<Longrightarrow> distinct seen \<Longrightarrow> distinct bs"
  by (induction h todo seen rule: walk.induct) (auto split: if_splits option.splits)

lemma walk_superset: "walk h todo seen = Some bs \<Longrightarrow> set seen \<union> set todo \<subseteq> set bs"
  by (induction h todo seen rule: walk.induct) (auto split: if_splits option.splits)

lemma walk_sound:
  "walk h todo seen = Some bs \<Longrightarrow> set bs \<subseteq> set seen \<union> (edges h)\<^sup>* `` set todo"
proof (induction h todo seen rule: walk.induct)
  case (1 h seen)
  then show ?case by simp
next
  case (2 h p todo seen)
  show ?case
  proof (cases "p \<in> set seen")
    case True
    then have "set bs \<subseteq> set seen \<union> (edges h)\<^sup>* `` set todo"
      using 2 by simp
    then show ?thesis by auto
  next
    case False
    then obtain ss where ss: "successors h p = Some ss" and w: "walk h (ss @ todo) (p # seen) = Some bs"
      using "2.prems" by (auto split: option.splits)
    have sub: "set bs \<subseteq> set (p # seen) \<union> (edges h)\<^sup>* `` set (ss @ todo)"
      using "2.IH"(2) [OF False ss w] .
    have step: "\<And>q. q \<in> set ss \<Longrightarrow> (p, q) \<in> edges h"
      using ss by (auto simp: edges_successors)
    have a: "p \<in> (edges h)\<^sup>* `` set (p # todo)"
      by auto
    have b: "(edges h)\<^sup>* `` set ss \<subseteq> (edges h)\<^sup>* `` set (p # todo)"
      using step by (auto intro: converse_rtrancl_into_rtrancl)
    have c: "(edges h)\<^sup>* `` set todo \<subseteq> (edges h)\<^sup>* `` set (p # todo)"
      by auto
    have d: "(edges h)\<^sup>* `` set (ss @ todo) = (edges h)\<^sup>* `` set ss \<union> (edges h)\<^sup>* `` set todo"
      by (simp add: Image_Un)
    show ?thesis
      using sub a b c unfolding d by (simp add: subset_iff) blast
  qed
qed

lemma walk_closed:
  "walk h todo seen = Some bs \<Longrightarrow> p \<in> set bs \<Longrightarrow> p \<notin> set seen \<Longrightarrow> (p, q) \<in> edges h \<Longrightarrow>
   q \<in> set bs"
proof (induction h todo seen rule: walk.induct)
  case (1 h seen)
  then show ?case by simp
next
  case (2 h x todo seen)
  show ?case
  proof (cases "x \<in> set seen")
    case True
    then show ?thesis
      using 2 by simp
  next
    case False
    then obtain ss where ss: "successors h x = Some ss" and w: "walk h (ss @ todo) (x # seen) = Some bs"
      using "2.prems" by (auto split: option.splits)
    show ?thesis
    proof (cases "p = x")
      case True
      then have "q \<in> set ss"
        using ss "2.prems"(4) by (auto simp: edges_successors)
      then show ?thesis
        using walk_superset [OF w] by auto
    next
      case ne: False
      then have "p \<notin> set (x # seen)"
        using "2.prems"(3) by simp
      then show ?thesis
        using "2.IH"(2) [OF False ss w "2.prems"(2) _ "2.prems"(4)] by simp
    qed
  qed
qed

lemma walk_succeeds:
  "\<forall>p \<in> (edges h)\<^sup>* `` set todo. successors h p \<noteq> None \<Longrightarrow> walk h todo seen \<noteq> None"
proof (induction h todo seen rule: walk.induct)
  case (1 h seen)
  then show ?case by simp
next
  case (2 h x todo seen)
  show ?case
  proof (cases "x \<in> set seen")
    case True
    have "\<forall>p \<in> (edges h)\<^sup>* `` set todo. successors h p \<noteq> None"
      using "2.prems" by auto
    then show ?thesis
      using True "2.IH"(1) by simp
  next
    case False
    have "successors h x \<noteq> None"
      using "2.prems" by auto
    then obtain ss where ss: "successors h x = Some ss"
      by auto
    have step: "\<And>q. q \<in> set ss \<Longrightarrow> (x, q) \<in> edges h"
      using ss by (auto simp: edges_successors)
    have "(edges h)\<^sup>* `` set ss \<subseteq> (edges h)\<^sup>* `` {x}"
      using step by (auto intro: converse_rtrancl_into_rtrancl)
    then have "\<forall>p \<in> (edges h)\<^sup>* `` set (ss @ todo). successors h p \<noteq> None"
      using "2.prems" by auto
    then show ?thesis
      using False ss "2.IH"(2) by simp
  qed
qed

lemma walk_reach:
  assumes "walk h [e] [] = Some bs"
  shows "set bs = reach h e" and "distinct bs"
proof -
  show "distinct bs"
    using walk_distinct [OF assms] by simp
  have sound: "set bs \<subseteq> reach h e"
    using walk_sound [OF assms] by (simp add: reach_def)
  have e: "e \<in> set bs"
    using walk_superset [OF assms] by simp
  have "q \<in> set bs" if "(e, q) \<in> (edges h)\<^sup>*" for q
    using that
  proof (induction rule: rtrancl_induct)
    case base
    then show ?case by (rule e)
  next
    case (step y z)
    then show ?case
      using walk_closed [OF assms, of y z] by simp
  qed
  then have "reach h e \<subseteq> set bs"
    by (auto simp: reach_def)
  then show "set bs = reach h e"
    using sound by auto
qed


subsection \<open>Deleting what is owned\<close>

lemma exclusively_owned_alt:
  "exclusively_owned h S =
     ((\<forall>b \<in> S. load (block_heap h) b \<noteq> None \<and> distinct (block_statements h b) \<and>
         (\<forall>s \<in> set (block_statements h b). load (stmt_heap h) s \<noteq> None) \<and>
         (\<forall>t. block_jump h b = Some t \<longrightarrow> load (jump_heap h) t \<noteq> None)) \<and>
      (\<forall>b \<in> S. \<forall>b' \<in> S. b \<noteq> b' \<longrightarrow>
         set (block_statements h b) \<inter> set (block_statements h b') = {} \<and>
         (block_jump h b = None \<or> block_jump h b \<noteq> block_jump h b')))"
  unfolding exclusively_owned_def
  by (intro arg_cong2 [where f = "(\<and>)"] ball_cong refl) (auto split: option.splits)

lemma delete_Statements_ok:
  "distinct ss \<Longrightarrow> \<forall>s \<in> set ss. load (stmt_heap h) s \<noteq> None \<Longrightarrow>
   \<exists>h'. delete_Statements ss h = Some h' \<and> block_heap h' = block_heap h \<and>
        jump_heap h' = jump_heap h \<and> function_heap h' = function_heap h \<and>
        (\<forall>s. load (stmt_heap h') s = (if s \<in> set ss then None else load (stmt_heap h) s))"
proof (induction ss arbitrary: h)
  case Nil
  then show ?case by simp
next
  case (Cons s ss)
  obtain st where st: "load (stmt_heap h) s = Some st"
    using Cons.prems(2) by auto
  let ?h1 = "h\<lparr>stmt_heap := (stmt_heap h)[s := None]\<rparr>"
  have d: "delete_Statement s h = Some ?h1"
    using st by (simp add: delete_Statement_def delete_def)
  have live: "\<forall>x \<in> set ss. load (stmt_heap ?h1) x \<noteq> None"
    using Cons.prems by auto
  have dist: "distinct ss"
    using Cons.prems(1) by simp
  from Cons.IH [OF dist live]
  obtain h' where h': "delete_Statements ss ?h1 = Some h'"
    and same: "block_heap h' = block_heap ?h1" "jump_heap h' = jump_heap ?h1"
      "function_heap h' = function_heap ?h1"
    and st': "\<And>x. load (stmt_heap h') x = (if x \<in> set ss then None else load (stmt_heap ?h1) x)"
    by auto
  show ?case
    using d h' same by (auto simp: st')
qed

lemma delete_Block_ok:
  assumes "load (block_heap h) b = Some blk"
    and "distinct (contents blk)"
    and "\<forall>s \<in> set (contents blk). load (stmt_heap h) s \<noteq> None"
    and "\<forall>t. transition blk = Some t \<longrightarrow> load (jump_heap h) t \<noteq> None"
  shows "\<exists>h'. delete_Block b h = Some h' \<and> released h {} {b} h'"
proof -
  from delete_Statements_ok [OF assms(2,3)]
  obtain h1 where h1: "delete_Statements (contents blk) h = Some h1"
    and same: "block_heap h1 = block_heap h" "jump_heap h1 = jump_heap h"
      "function_heap h1 = function_heap h"
    and st: "\<And>x. load (stmt_heap h1) x =
               (if x \<in> set (contents blk) then None else load (stmt_heap h) x)"
    by auto
  show ?thesis
  proof (cases "transition blk")
    case None
    then show ?thesis
      using assms(1) h1 same
      by (auto simp: delete_Block_def Block_destructor_def delete_def released_def st
          block_statements_def block_jump_def)
  next
    case (Some t)
    then obtain j where "load (jump_heap h) t = Some j"
      using assms(4) by auto
    then show ?thesis
      using assms(1) h1 same Some
      by (auto simp: delete_Block_def Block_destructor_def delete_Jump_def delete_def
          released_def st block_statements_def block_jump_def)
  qed
qed

lemma released_trans:
  assumes "released h F1 S1 h1" and "released h1 F2 S2 h2" and "S1 \<inter> S2 = {}"
  shows "released h (F1 \<union> F2) (S1 \<union> S2) h2"
proof -
  have blk: "\<And>b. b \<in> S2 \<Longrightarrow> load (block_heap h1) b = load (block_heap h) b"
    using assms(1,3) by (auto simp: released_def)
  then have same: "\<And>b. b \<in> S2 \<Longrightarrow> block_statements h1 b = block_statements h b"
    "\<And>b. b \<in> S2 \<Longrightarrow> block_jump h1 b = block_jump h b"
    by (simp_all add: block_statements_def block_jump_def)
  have f: "\<forall>f. load (function_heap h2) f =
              (if f \<in> F1 \<union> F2 then None else load (function_heap h) f)"
    using assms(1,2) by (auto simp: released_def)
  have b: "\<forall>b. load (block_heap h2) b = (if b \<in> S1 \<union> S2 then None else load (block_heap h) b)"
    using assms(1,2) by (auto simp: released_def)
  have s: "\<forall>s. load (stmt_heap h2) s =
              (if \<exists>b \<in> S1 \<union> S2. s \<in> set (block_statements h b) then None
               else load (stmt_heap h) s)"
  proof
    fix s
    have "load (stmt_heap h2) s =
            (if \<exists>b \<in> S2. s \<in> set (block_statements h1 b) then None else load (stmt_heap h1) s)"
      using assms(2) by (simp add: released_def)
    also have "(\<exists>b \<in> S2. s \<in> set (block_statements h1 b)) = (\<exists>b \<in> S2. s \<in> set (block_statements h b))"
      using same(1) by auto
    also have "load (stmt_heap h1) s =
            (if \<exists>b \<in> S1. s \<in> set (block_statements h b) then None else load (stmt_heap h) s)"
      using assms(1) by (simp add: released_def)
    finally show "load (stmt_heap h2) s =
              (if \<exists>b \<in> S1 \<union> S2. s \<in> set (block_statements h b) then None
               else load (stmt_heap h) s)"
      by auto
  qed
  have j: "\<forall>t. load (jump_heap h2) t =
              (if \<exists>b \<in> S1 \<union> S2. block_jump h b = Some t then None else load (jump_heap h) t)"
  proof
    fix t
    have "load (jump_heap h2) t =
            (if \<exists>b \<in> S2. block_jump h1 b = Some t then None else load (jump_heap h1) t)"
      using assms(2) by (simp add: released_def)
    also have "(\<exists>b \<in> S2. block_jump h1 b = Some t) = (\<exists>b \<in> S2. block_jump h b = Some t)"
      using same(2) by auto
    also have "load (jump_heap h1) t =
            (if \<exists>b \<in> S1. block_jump h b = Some t then None else load (jump_heap h) t)"
      using assms(1) by (simp add: released_def)
    finally show "load (jump_heap h2) t =
              (if \<exists>b \<in> S1 \<union> S2. block_jump h b = Some t then None else load (jump_heap h) t)"
      by auto
  qed
  show ?thesis
    unfolding released_def using f b s j by blast
qed

lemma exclusively_owned_subset:
  "exclusively_owned h T \<Longrightarrow> S \<subseteq> T \<Longrightarrow> exclusively_owned h S"
  unfolding exclusively_owned_alt by (meson subsetD)


lemma released_block_same:
  assumes "released h F S1 h1" and "b \<notin> S1"
  shows "load (block_heap h1) b = load (block_heap h) b"
    and "block_statements h1 b = block_statements h b"
    and "block_jump h1 b = block_jump h b"
  using assms by (simp_all add: released_def block_statements_def block_jump_def)

lemma exclusively_owned_after:
  assumes own: "exclusively_owned h (S1 \<union> S2)" and disj: "S1 \<inter> S2 = {}"
    and rel: "released h F S1 h1"
  shows "exclusively_owned h1 S2"
proof -
  have out: "\<And>b. b \<in> S2 \<Longrightarrow> b \<notin> S1"
    using disj by auto
  have stay_s: "load (stmt_heap h1) s = load (stmt_heap h) s"
    if "b \<in> S2" and "s \<in> set (block_statements h b)" for b s
  proof -
    have "\<not> (\<exists>b' \<in> S1. s \<in> set (block_statements h b'))"
    proof
      assume "\<exists>b' \<in> S1. s \<in> set (block_statements h b')"
      then obtain b' where b': "b' \<in> S1" "s \<in> set (block_statements h b')"
        by auto
      then have "b \<noteq> b'"
        using that(1) out by auto
      then have "set (block_statements h b) \<inter> set (block_statements h b') = {}"
        using own that(1) b'(1) by (simp add: exclusively_owned_alt)
      then show False
        using that(2) b'(2) by auto
    qed
    then show ?thesis
      using rel by (simp add: released_def)
  qed
  have stay_j: "load (jump_heap h1) t = load (jump_heap h) t"
    if "b \<in> S2" and "block_jump h b = Some t" for b t
  proof -
    have "\<not> (\<exists>b' \<in> S1. block_jump h b' = Some t)"
    proof
      assume "\<exists>b' \<in> S1. block_jump h b' = Some t"
      then obtain b' where b': "b' \<in> S1" "block_jump h b' = Some t"
        by auto
      then have "b \<noteq> b'"
        using that(1) out by auto
      then have "block_jump h b = None \<or> block_jump h b \<noteq> block_jump h b'"
        using own that(1) b'(1) by (simp add: exclusively_owned_alt)
      then show False
        using that(2) b'(2) by auto
    qed
    then show ?thesis
      using rel by (simp add: released_def)
  qed
  have old: "exclusively_owned h S2"
    using own by (rule exclusively_owned_subset) simp
  show ?thesis
    unfolding exclusively_owned_alt
  proof (intro conjI ballI impI allI)
    fix b
    assume b: "b \<in> S2"
    show "load (block_heap h1) b \<noteq> None"
      using old b released_block_same(1) [OF rel out [OF b]] by (simp add: exclusively_owned_alt)
    show "distinct (block_statements h1 b)"
      using old b released_block_same(2) [OF rel out [OF b]] by (simp add: exclusively_owned_alt)
  next
    fix b s
    assume b: "b \<in> S2" and s: "s \<in> set (block_statements h1 b)"
    then have s': "s \<in> set (block_statements h b)"
      using released_block_same(2) [OF rel out [OF b]] by simp
    then have "load (stmt_heap h) s \<noteq> None"
      using old b by (simp add: exclusively_owned_alt)
    then show "load (stmt_heap h1) s \<noteq> None"
      using stay_s [OF b s'] by simp
  next
    fix b t
    assume b: "b \<in> S2" and t: "block_jump h1 b = Some t"
    then have t': "block_jump h b = Some t"
      using released_block_same(3) [OF rel out [OF b]] by simp
    then have "load (jump_heap h) t \<noteq> None"
      using old b by (simp add: exclusively_owned_alt)
    then show "load (jump_heap h1) t \<noteq> None"
      using stay_j [OF b t'] by simp
  next
    fix b b'
    assume b: "b \<in> S2" and b': "b' \<in> S2" and ne: "b \<noteq> b'"
    have "set (block_statements h b) \<inter> set (block_statements h b') = {}"
      and "block_jump h b = None \<or> block_jump h b \<noteq> block_jump h b'"
      using old b b' ne by (simp_all add: exclusively_owned_alt)
    then show "set (block_statements h1 b) \<inter> set (block_statements h1 b') = {}"
      and "block_jump h1 b = None \<or> block_jump h1 b \<noteq> block_jump h1 b'"
      using released_block_same(2,3) [OF rel out [OF b]]
        released_block_same(2,3) [OF rel out [OF b']]
      by simp_all
  qed
qed

lemma delete_Blocks_ok:
  "distinct bs \<Longrightarrow> exclusively_owned h (set bs) \<Longrightarrow>
   \<exists>h'. delete_Blocks bs h = Some h' \<and> released h {} (set bs) h'"
proof (induction bs arbitrary: h)
  case Nil
  then show ?case
    by (simp add: released_def)
next
  case (Cons b bs)
  have own: "exclusively_owned h ({b} \<union> set bs)"
    using Cons.prems(2) by simp
  have disj: "{b} \<inter> set bs = {}"
    using Cons.prems(1) by simp
  have b: "load (block_heap h) b \<noteq> None" "distinct (block_statements h b)"
    "\<forall>s \<in> set (block_statements h b). load (stmt_heap h) s \<noteq> None"
    "\<forall>t. block_jump h b = Some t \<longrightarrow> load (jump_heap h) t \<noteq> None"
    using own by (simp_all add: exclusively_owned_alt)
  then obtain blk where blk: "load (block_heap h) b = Some blk"
    by auto
  have "\<exists>h1. delete_Block b h = Some h1 \<and> released h {} {b} h1"
    using b(2-4) blk
    by (intro delete_Block_ok [OF blk]) (simp_all add: block_statements_def block_jump_def)
  then obtain h1 where h1: "delete_Block b h = Some h1" and rel1: "released h {} {b} h1"
    by auto
  have own1: "exclusively_owned h1 (set bs)"
    using own disj rel1 by (rule exclusively_owned_after)
  from Cons.IH [OF _ own1] Cons.prems(1)
  obtain h' where h': "delete_Blocks bs h1 = Some h'" and rel2: "released h1 {} (set bs) h'"
    by auto
  have "released h ({} \<union> {}) ({b} \<union> set bs) h'"
    using rel1 rel2 disj by (rule released_trans)
  then show ?case
    using h1 h' by simp
qed

lemma reach_frame:
  assumes "\<forall>p \<in> reach h e. successors h' p = successors h p"
  shows "reach h' e = reach h e"
proof -
  have fwd: "q \<in> reach h e" if "(e, q) \<in> (edges h')\<^sup>*" for q
    using that
  proof (induction rule: rtrancl_induct)
    case base
    then show ?case by (simp add: reach_def)
  next
    case (step y z)
    then have "(y, z) \<in> edges h"
      using assms by (simp add: edges_successors)
    then show ?case
      using step.IH by (auto simp: reach_def intro: rtrancl_into_rtrancl)
  qed
  have bwd: "q \<in> reach h' e" if "(e, q) \<in> (edges h)\<^sup>*" for q
    using that
  proof (induction rule: rtrancl_induct)
    case base
    then show ?case by (simp add: reach_def)
  next
    case (step y z)
    have "y \<in> reach h e"
      using step.hyps(1) by (simp add: reach_def)
    then have "(y, z) \<in> edges h'"
      using assms step.hyps(2) by (simp add: edges_successors)
    then show ?case
      using step.IH by (auto simp: reach_def intro: rtrancl_into_rtrancl)
  qed
  show ?thesis
    using fwd bwd by (auto simp: reach_def)
qed

lemma successors_cells:
  "successors h p =
     (case load (block_heap h) p of
        None \<Rightarrow> None
      | Some b \<Rightarrow>
          (case block_jump h p of
             None \<Rightarrow> Some []
           | Some j \<Rightarrow> map_option destinations (load (jump_heap h) j)))"
  by (auto simp: successors_def block_jump_def split: option.splits bind_splits)

lemma owned_successors:
  assumes "exclusively_owned h S" and "p \<in> S"
  shows "successors h p \<noteq> None"
  using assms by (auto simp: successors_cells exclusively_owned_alt split: option.splits)


lemma released_successors_same:
  assumes own: "exclusively_owned h (S1 \<union> S2)" and disj: "S1 \<inter> S2 = {}"
    and rel: "released h F S1 h1" and p: "p \<in> S2"
  shows "successors h1 p = successors h p"
proof -
  have out: "p \<notin> S1"
    using disj p by auto
  have jump: "load (jump_heap h1) t = load (jump_heap h) t" if t: "block_jump h p = Some t" for t
  proof -
    have "\<not> (\<exists>b' \<in> S1. block_jump h b' = Some t)"
    proof
      assume "\<exists>b' \<in> S1. block_jump h b' = Some t"
      then obtain b' where b': "b' \<in> S1" "block_jump h b' = Some t"
        by auto
      then have "p \<noteq> b'"
        using out by auto
      then have "block_jump h p = None \<or> block_jump h p \<noteq> block_jump h b'"
        using own p b'(1) by (simp add: exclusively_owned_alt)
      then show False
        using t b'(2) by auto
    qed
    then show ?thesis
      using rel by (simp add: released_def)
  qed
  show ?thesis
    using released_block_same(1,3) [OF rel out] jump
    by (auto simp: successors_cells split: option.splits)
qed

lemma delete_Function_ok:
  assumes fn: "load (function_heap h) f = Some fn"
    and own: "exclusively_owned h (reach h (entry fn))"
  shows "\<exists>h'. delete_Function f h = Some h' \<and> released h {f} (reach h (entry fn)) h'"
proof -
  have "\<forall>p \<in> (edges h)\<^sup>* `` set [entry fn]. successors h p \<noteq> None"
    using owned_successors [OF own] by (simp add: reach_def)
  then have "walk h [entry fn] [] \<noteq> None"
    by (rule walk_succeeds)
  then obtain bs where bs: "walk h [entry fn] [] = Some bs"
    by auto
  have set_bs: "set bs = reach h (entry fn)" and dist: "distinct bs"
    using walk_reach [OF bs] by simp_all
  from delete_Blocks_ok [OF dist] own set_bs
  obtain h1 where h1: "delete_Blocks bs h = Some h1"
    and rel: "released h {} (reach h (entry fn)) h1"
    by auto
  have cell: "load (function_heap h1) f = Some fn"
    using rel fn by (simp add: released_def)
  let ?h' = "h1\<lparr>function_heap := (function_heap h1)[f := None]\<rparr>"
  have d: "delete_Function f h = Some ?h'"
    using fn bs h1 cell by (simp add: delete_Function_def Function_destructor_def delete_def)
  have "released h {f} (reach h (entry fn)) ?h'"
    using rel by (simp add: released_def)
  then show ?thesis
    using d by blast
qed

lemma delete_Functions_ok:
  "distinct fs \<Longrightarrow>
   \<forall>f \<in> set fs. load (function_heap h) f \<noteq> None \<Longrightarrow>
   \<forall>f \<in> set fs. \<forall>f' \<in> set fs. f \<noteq> f' \<longrightarrow> function_blocks h f \<inter> function_blocks h f' = {} \<Longrightarrow>
   exclusively_owned h (\<Union>f \<in> set fs. function_blocks h f) \<Longrightarrow>
   \<exists>h'. delete_Functions fs h = Some h' \<and>
        released h (set fs) (\<Union>f \<in> set fs. function_blocks h f) h'"
proof (induction fs arbitrary: h)
  case Nil
  then show ?case
    by (simp add: released_def)
next
  case (Cons f fs)
  let ?S1 = "function_blocks h f"
  let ?S2 = "\<Union>g \<in> set fs. function_blocks h g"
  obtain fn where fn: "load (function_heap h) f = Some fn"
    using Cons.prems(2) by auto
  have S1: "?S1 = reach h (entry fn)"
    using fn by (simp add: function_blocks_def)
  have notin: "f \<notin> set fs" and dist: "distinct fs"
    using Cons.prems(1) by simp_all
  have disj: "?S1 \<inter> ?S2 = {}"
    using Cons.prems(3) notin by fastforce
  have own: "exclusively_owned h (?S1 \<union> ?S2)"
    using Cons.prems(4) by simp
  have own1: "exclusively_owned h (reach h (entry fn))"
    using own S1 by (auto intro: exclusively_owned_subset)
  from delete_Function_ok [OF fn own1]
  obtain h1 where h1: "delete_Function f h = Some h1" and rel1: "released h {f} ?S1 h1"
    using S1 by auto
  have cells: "\<And>g. g \<in> set fs \<Longrightarrow> load (function_heap h1) g = load (function_heap h) g"
    using rel1 notin by (auto simp: released_def)
  have blocks: "function_blocks h1 g = function_blocks h g" if g: "g \<in> set fs" for g
  proof (cases "load (function_heap h) g")
    case None
    then show ?thesis
      using cells [OF g] by (simp add: function_blocks_def)
  next
    case (Some gn)
    have "reach h (entry gn) \<subseteq> ?S2"
      using g Some by (auto simp: function_blocks_def)
    then have "\<forall>p \<in> reach h (entry gn). successors h1 p = successors h p"
      using released_successors_same [OF own disj rel1] by auto
    then have "reach h1 (entry gn) = reach h (entry gn)"
      by (rule reach_frame)
    then show ?thesis
      using Some cells [OF g] by (simp add: function_blocks_def)
  qed
  then have S2: "(\<Union>g \<in> set fs. function_blocks h1 g) = ?S2"
    by simp
  have live1: "\<forall>g \<in> set fs. load (function_heap h1) g \<noteq> None"
    using Cons.prems(2) cells by simp
  have disj1: "\<forall>g \<in> set fs. \<forall>g' \<in> set fs. g \<noteq> g' \<longrightarrow>
                 function_blocks h1 g \<inter> function_blocks h1 g' = {}"
    using Cons.prems(3) blocks by simp
  have own2: "exclusively_owned h1 (\<Union>g \<in> set fs. function_blocks h1 g)"
    unfolding S2 using own disj rel1 by (rule exclusively_owned_after)
  from Cons.IH [OF dist live1 disj1 own2]
  obtain h' where h': "delete_Functions fs h1 = Some h'"
    and rel2: "released h1 (set fs) ?S2 h'"
    unfolding S2 by auto
  have "released h ({f} \<union> set fs) (?S1 \<union> ?S2) h'"
    using rel1 rel2 disj by (rule released_trans)
  then show ?case
    using h1 h' by simp
qed




text \<open>
  C9. Let the program own its graph (\<open>program_owned\<close>). Then its destructor succeeds:
  no \<open>delete\<close> meets an address without an object, so no node is released twice.
  Afterwards every function of the program is released, and so is every block reachable
  from the entry of one of them (a block reached only through a back edge too), with
  every statement and the jump it holds; and every other cell of the heap is as it was
  (\<open>released\<close>).
\<close>

theorem teardown_complete:
  assumes "program_owned ir h"
  shows "\<exists>h'. SimpleIr_destructor ir h = Some h' \<and>
           (\<forall>f \<in> set (functions' ir). load (function_heap h') f = None) \<and>
           (\<forall>b \<in> program_blocks ir h.
              load (block_heap h') b = None \<and>
              (\<forall>s \<in> set (block_statements h b). load (stmt_heap h') s = None) \<and>
              (\<forall>t. block_jump h b = Some t \<longrightarrow> load (jump_heap h') t = None)) \<and>
           released h (set (functions' ir)) (program_blocks ir h) h'"
proof -
  from delete_Functions_ok [of "functions' ir" h] assms
  obtain h' where h': "delete_Functions (functions' ir) h = Some h'"
    and rel: "released h (set (functions' ir)) (program_blocks ir h) h'"
    by (auto simp: program_owned_def program_blocks_def)
  have "\<forall>f \<in> set (functions' ir). load (function_heap h') f = None"
    using rel by (simp add: released_def)
  moreover have "\<forall>b \<in> program_blocks ir h.
              load (block_heap h') b = None \<and>
              (\<forall>s \<in> set (block_statements h b). load (stmt_heap h') s = None) \<and>
              (\<forall>t. block_jump h b = Some t \<longrightarrow> load (jump_heap h') t = None)"
    using rel by (auto simp: released_def)
  ultimately show ?thesis
    using h' rel by (auto simp: SimpleIr_destructor_def)
qed



lemma loop_walks:
  "walk loop_heap [0] [] = Some [3, 2, 1, 0]"
  "walk loop_heap [4] [] = Some [4]"
  by code_simp+

lemma loop_functions:
  "load (function_heap loop_heap) 0 = Some function_main"
  "load (function_heap loop_heap) 1 = Some function_sin"
  by (simp_all add: loop_heap_def load_def)

lemma loop_function_blocks:
  "function_blocks loop_heap 0 = {0, 1, 2, 3}"
  "function_blocks loop_heap 1 = {4}"
proof -
  have "function_blocks loop_heap 0 = reach loop_heap 0"
    by (simp add: function_blocks_def loop_functions(1) function_main_def)
  also have "\<dots> = set [3, 2, 1, 0]"
    by (rule walk_reach(1) [OF loop_walks(1), symmetric])
  finally show "function_blocks loop_heap 0 = {0, 1, 2, 3}"
    by auto
  have "function_blocks loop_heap 1 = reach loop_heap 4"
    using loop_functions(2) by (simp add: function_blocks_def function_sin_def)
  also have "\<dots> = set [4]"
    by (rule walk_reach(1) [OF loop_walks(2), symmetric])
  finally show "function_blocks loop_heap 1 = {4}"
    by simp
qed

lemma loop_program_blocks: "program_blocks example_program loop_heap = {0, 1, 2, 3, 4}"
proof -
  have "program_blocks example_program loop_heap =
          function_blocks loop_heap 0 \<union> function_blocks loop_heap 1"
    by (simp add: program_blocks_def example_program_def)
  then show ?thesis
    unfolding loop_function_blocks by auto
qed


lemma loop_exclusive: "exclusively_owned loop_heap {0, 1, 2, 3, 4}"
  by code_simp

lemma loop_owned: "program_owned example_program loop_heap"
proof -
  have d: "distinct (functions' example_program)"
    by (simp add: example_program_def)
  have l: "\<forall>f \<in> set (functions' example_program). load (function_heap loop_heap) f \<noteq> None"
    using loop_functions by (simp add: example_program_def)
  have s: "\<forall>f \<in> set (functions' example_program). \<forall>f' \<in> set (functions' example_program).
             f \<noteq> f' \<longrightarrow> function_blocks loop_heap f \<inter> function_blocks loop_heap f' = {}"
    using loop_function_blocks by (simp add: example_program_def)
  show ?thesis
    unfolding program_owned_def loop_program_blocks
    using d l s loop_exclusive by blast
qed


theorem teardown_complete_witness:
  "program_owned example_program loop_heap \<and>
   (\<exists>h'. SimpleIr_destructor example_program loop_heap = Some h' \<and>
      map (load (function_heap h')) [0, 1] = [None, None] \<and>
      map (load (block_heap h')) [0, 1, 2, 3, 4] = [None, None, None, None, None] \<and>
      load (block_heap h') 5 = load (block_heap loop_heap) 5 \<and>
      map (load (stmt_heap h')) [0, 1, 2] = [None, None, None] \<and>
      load (stmt_heap h') 3 = load (stmt_heap loop_heap) 3 \<and>
      map (load (jump_heap h')) [0, 1, 2] = [None, None, None])"
proof -
  from teardown_complete [OF loop_owned]
  obtain h' where h': "SimpleIr_destructor example_program loop_heap = Some h'"
    and rel: "released loop_heap (set (functions' example_program))
                (program_blocks example_program loop_heap) h'"
    by auto
  have st: "block_statements loop_heap 0 = [0]" "block_statements loop_heap 1 = []"
    "block_statements loop_heap 2 = [1]" "block_statements loop_heap 3 = [2]"
    "block_statements loop_heap 4 = []"
    by (simp_all add: block_statements_def loop_heap_def load_def)
  have ju: "block_jump loop_heap 0 = Some 0" "block_jump loop_heap 1 = Some 1"
    "block_jump loop_heap 2 = Some 2" "block_jump loop_heap 3 = None"
    "block_jump loop_heap 4 = None"
    by (simp_all add: block_jump_def loop_heap_def load_def)
  have f: "map (load (function_heap h')) [0, 1] = [None, None]"
    using rel by (simp add: released_def example_program_def)
  have b: "map (load (block_heap h')) [0, 1, 2, 3, 4] = [None, None, None, None, None]"
    "load (block_heap h') 5 = load (block_heap loop_heap) 5"
    using rel by (simp_all add: released_def loop_program_blocks)
  have s: "map (load (stmt_heap h')) [0, 1, 2] = [None, None, None]"
    "load (stmt_heap h') 3 = load (stmt_heap loop_heap) 3"
    using rel st by (simp_all add: released_def loop_program_blocks)
  have j: "map (load (jump_heap h')) [0, 1, 2] = [None, None, None]"
    using rel ju by (simp_all add: released_def loop_program_blocks)
  show ?thesis
    by (intro conjI exI [of _ h']) (fact loop_owned h' f b s j)+
qed


end
